theory Spec2Isabelle
  imports Complex_Main "HOL-Library.Sublist" "HOL-Library.List_Lexorder" "HOL-Library.Char_ord"
begin

section \<open>Common conventions\<close>

text \<open>
  The two scripts \<^verbatim>\<open>extract_m3ed_rmse.py\<close> and \<^verbatim>\<open>generate_comparison_tables.py\<close> are
  embedded as HOL functions. Python strings are \<open>string\<close>, restricted to ASCII text.
  Floating-point numbers are embedded as \<open>real\<close>: rounding is abstracted, comparisons
  and the order of operations are kept. A value that does not exist as a finite number
  (\<^verbatim>\<open>nan\<close>, \<^verbatim>\<open>inf\<close>) is written out where the code can produce it. Every exception the
  scripts can raise is a value of \<open>py_error\<close>, and a computation that may raise returns
  \<open>py_error + 'a\<close>.
\<close>

datatype py_error = ValueError | KeyError | TypeError | IndexError

section \<open>Reporter: name parsing\<close>

text \<open>The list \<^verbatim>\<open>variant_markers\<close> of \<^verbatim>\<open>parse_name\<close>, in the order of the source.\<close>

definition variant_markers :: "string list" where
  "variant_markers =
    [''_daac_depth_opt_log_mahalanobis_w50'',
     ''_daac_depth_opt_log_mahalanobis_w30'',
     ''_daac_depth_opt_mahalanobis_w1000'',
     ''_daac_depth_opt_mahalanobis_w500'',
     ''_daac_depth_opt_mahalanobis_w100'',
     ''_daac_depth_opt_log_w100'',
     ''_daac_depth_opt_w1000'',
     ''_daac_depth_opt_w500'',
     ''_daac_depth_opt_w100'',
     ''_daac_rgd_inv'',
     ''_daac_rgd_metric'',
     ''_base'']"

text \<open>\<^verbatim>\<open>name.endswith(marker)\<close>.\<close>

definition endswith :: "string \<Rightarrow> string \<Rightarrow> bool" where
  "endswith name marker \<longleftrightarrow>
     length marker \<le> length name \<and> drop (length name - length marker) name = marker"

text \<open>
  The loop of \<^verbatim>\<open>parse_name\<close> over the markers: the first marker that ends the name
  wins; \<^verbatim>\<open>name[:-len(marker)]\<close> is the name without its last \<open>length marker\<close>
  characters (every marker is non-empty), \<^verbatim>\<open>marker[1:]\<close> drops the first character.
  \<open>None\<close> is Python's \<^verbatim>\<open>None\<close>.
\<close>

fun parse_name_loop :: "string list \<Rightarrow> string \<Rightarrow> string option \<times> string option" where
  "parse_name_loop [] name = (None, None)"
| "parse_name_loop (marker # markers) name =
     (if endswith name marker
      then (Some (take (length name - length marker) name), Some (drop 1 marker))
      else parse_name_loop markers name)"

definition parse_name :: "string \<Rightarrow> string option \<times> string option" where
  "parse_name name = parse_name_loop variant_markers name"

section \<open>Reporter: the data frame and its pivot\<close>

text \<open>
  A row of the CSV as the Reporter reads it: the experiment name and the cell
  \<^verbatim>\<open>rmse_median\<close>, which is a finite number or empty (\<open>None\<close>, pandas' \<^verbatim>\<open>nan\<close>).
  The Extractor always writes the column \<^verbatim>\<open>rmse_median\<close>, so the branch that
  recomputes it from the run columns is not taken.
\<close>

record csv_row =
  r_name :: string
  r_rmse_median :: "real option"

text \<open>
  \<^verbatim>\<open>df['sequence'], df['variant'] = zip(*df['name'].apply(parse_name))\<close>: every row
  gets its two keys. On a frame without rows \<^verbatim>\<open>zip()\<close> yields nothing and the
  unpacking into two targets raises \<^verbatim>\<open>ValueError\<close>.
\<close>

type_synonym keyed_row = "string option \<times> string option \<times> real option"

definition parse_all :: "csv_row list \<Rightarrow> py_error + keyed_row list" where
  "parse_all df =
     (if df = [] then Inl ValueError
      else Inr (map (\<lambda>r. (fst (parse_name (r_name r)), snd (parse_name (r_name r)),
                           r_rmse_median r)) df))"

text \<open>
  \<^verbatim>\<open>df.pivot(index='sequence', columns='variant', values='rmse_median')\<close>. pandas
  builds the pair index and unstacks it: a pair of keys that occurs twice raises
  \<^verbatim>\<open>ValueError\<close> (index contains duplicate entries); the labels of each axis are
  the distinct keys in ascending order; a null key is not dropped but becomes the
  label \<^verbatim>\<open>nan\<close> (\<open>None\<close> here), put first on its axis.
\<close>

record pivot_table =
  p_index :: "string option list"
  p_columns :: "string option list"
  p_cells :: "((string option \<times> string option) \<times> real option) list"

definition present_labels :: "string option list \<Rightarrow> string option list" where
  "present_labels ks = map Some (sort (remdups (List.map_filter (\<lambda>k. k) ks)))"

definition pivot :: "keyed_row list \<Rightarrow> py_error + pivot_table" where
  "pivot rows =
     (let keys = map (\<lambda>(s, v, m). (s, v)) rows in
      if \<not> distinct keys then Inl ValueError
      else Inr \<lparr>
        p_index = (if None \<in> set (map fst keys) then [None] else []) @ present_labels (map fst keys),
        p_columns = (if None \<in> set (map snd keys) then [None] else []) @ present_labels (map snd keys),
        p_cells = map (\<lambda>(s, v, m). ((s, v), m)) rows \<rparr>)"

text \<open>
  \<^verbatim>\<open>sorted(pivot_df.index.tolist())\<close>: strings are ordered lexicographically; a
  list that mixes strings with the float \<^verbatim>\<open>nan\<close> cannot be compared and raises
  \<^verbatim>\<open>TypeError\<close>.
\<close>

definition py_sorted :: "string option list \<Rightarrow> py_error + string option list" where
  "py_sorted xs =
     (if None \<notin> set xs then Inr (map Some (sort (List.map_filter (\<lambda>k. k) xs)))
      else if set xs = {None} then Inr xs
      else Inl TypeError)"

text \<open>
  \<^verbatim>\<open>table_df.loc[seq, col] if seq in table_df.index and col in table_df.columns else np.nan\<close>.
\<close>

definition loc :: "pivot_table \<Rightarrow> string option \<Rightarrow> string option \<Rightarrow> real option" where
  "loc pv seq col =
     (if seq \<in> set (p_index pv) \<and> col \<in> set (p_columns pv)
      then (case map_of (p_cells pv) (seq, col) of Some (Some v) \<Rightarrow> Some v | _ \<Rightarrow> None)
      else None)"

section \<open>Reporter: rendering one comparison table\<close>

definition OUTLIER_THRESHOLD :: real where
  "OUTLIER_THRESHOLD = 10.0"

text \<open>
  The values read from the pivot are \<^verbatim>\<open>numpy.float64\<close>: a division by zero does
  not raise but gives an infinity or \<^verbatim>\<open>nan\<close>. \<open>fl\<close> is a float that may be one of
  these; zero is taken as \<^verbatim>\<open>+0.0\<close>.
\<close>

datatype fl = Fin real | PInf | NInf | NaN

text \<open>\<^verbatim>\<open>((val - baseline_val) / baseline_val) * 100\<close>.\<close>

definition pct_change_of :: "real \<Rightarrow> real \<Rightarrow> fl" where
  "pct_change_of val baseline_val =
     (if baseline_val = 0
      then (if val - baseline_val > 0 then PInf
            else if val - baseline_val < 0 then NInf else NaN)
      else Fin (((val - baseline_val) / baseline_val) * 100))"

text \<open>The comparisons \<^verbatim>\<open>x < c\<close> and \<^verbatim>\<open>x > c\<close> of a float with a finite constant.\<close>

fun fl_less :: "fl \<Rightarrow> real \<Rightarrow> bool" where
  "fl_less (Fin x) c = (x < c)"
| "fl_less NInf c = True"
| "fl_less PInf c = False"
| "fl_less NaN c = False"

fun fl_greater :: "fl \<Rightarrow> real \<Rightarrow> bool" where
  "fl_greater (Fin x) c = (x > c)"
| "fl_greater PInf c = True"
| "fl_greater NInf c = False"
| "fl_greater NaN c = False"

text \<open>
  The class of a percent change, in the cells
  (\<^verbatim>\<open>if pct_change < -1: ... elif pct_change > 1: ... else: ...\<close>) and in the average
  row (the same test as a conditional expression).
\<close>

definition pct_class_of :: "fl \<Rightarrow> string" where
  "pct_class_of pct_change =
     (if fl_less pct_change (-1) then ''improvement''
      else if fl_greater pct_change 1 then ''degradation''
      else [])"

text \<open>\<^verbatim>\<open>np.mean\<close> of a list of percent changes: their sum divided by their number.\<close>

fun fl_add :: "fl \<Rightarrow> fl \<Rightarrow> fl" where
  "fl_add (Fin a) (Fin b) = Fin (a + b)"
| "fl_add NaN y = NaN"
| "fl_add x NaN = NaN"
| "fl_add PInf NInf = NaN"
| "fl_add NInf PInf = NaN"
| "fl_add PInf y = PInf"
| "fl_add x PInf = PInf"
| "fl_add NInf y = NInf"
| "fl_add x NInf = NInf"

fun fl_div_count :: "fl \<Rightarrow> nat \<Rightarrow> fl" where
  "fl_div_count (Fin a) n = (if n = 0 then NaN else Fin (a / real n))"
| "fl_div_count x n = x"

definition np_mean :: "fl list \<Rightarrow> fl" where
  "np_mean xs = fl_div_count (foldl fl_add (Fin 0) xs) (length xs)"

text \<open>
  The table cells that the function writes. The HTML text around them, the style
  sheet and the number formats (\<^verbatim>\<open>.4f\<close>, \<^verbatim>\<open>+.1f\<close>, \<^verbatim>\<open>+.2f\<close>) are not modelled: a cell
  carries the data that its text is printed from. The class \<open>[]\<close> is the empty string.
\<close>

datatype th =
    SeqHead                \<comment> \<open>\<^verbatim>\<open><th>Sequence</th>\<close>\<close>
  | ColHead string         \<comment> \<open>\<^verbatim>\<open><th>{display_name}</th>\<close>, printed from the column name\<close>

datatype td =
    SeqCell "string option"  \<comment> \<open>\<^verbatim>\<open><td>{seq}</td>\<close>\<close>
  | Dash                     \<comment> \<open>\<^verbatim>\<open><td>-</td>\<close>\<close>
  | OutlierCell              \<comment> \<open>\<^verbatim>\<open><td class='outlier'>>10.0</td>\<close>\<close>
  | ValueCell string real "(string \<times> fl) option"
      \<comment> \<open>\<^verbatim>\<open><td class='{cell_class}'>{val}\<close>, with the span \<^verbatim>\<open>class='{pct_class}'>({pct_change}%)\<close> or without\<close>
  | AvgLabel                 \<comment> \<open>\<^verbatim>\<open><td><strong>Avg % Change vs Base</strong></td>\<close>\<close>
  | AvgCell string fl        \<comment> \<open>\<^verbatim>\<open><td class='{pct_class}'><strong>{avg_pct}%</strong></td>\<close>\<close>

text \<open>
  The body of the loop over the columns of one row: the cell written for the value
  \<open>v\<close> of column \<open>col\<close>, and the percent change appended to \<^verbatim>\<open>pct_changes[col]\<close>,
  if any. \<open>min_val\<close> is \<open>None\<close> when the row has no valid value; \<open>baseline_val\<close> is
  \<open>None\<close> for \<^verbatim>\<open>nan\<close>.
\<close>

definition cell_html :: "real option \<Rightarrow> real option \<Rightarrow> string \<Rightarrow> real option \<Rightarrow> td \<times> fl option" where
  "cell_html min_val baseline_val col v =
     (case v of
        None \<Rightarrow> (Dash, None)
      | Some val \<Rightarrow>
          if val \<ge> OUTLIER_THRESHOLD then (OutlierCell, None)
          else
            let cell_class =
                  (case min_val of
                     Some m \<Rightarrow> if \<bar>val - m\<bar> < 0.0001 then ''best'' else []
                   | None \<Rightarrow> [])
            in (case baseline_val of
                  Some b \<Rightarrow>
                    if col \<noteq> ''base'' \<and> b < OUTLIER_THRESHOLD \<and> val < OUTLIER_THRESHOLD
                    then (let pct_change = pct_change_of val b
                          in (ValueCell cell_class val (Some (pct_class_of pct_change, pct_change)),
                              Some pct_change))
                    else (ValueCell cell_class val None, None)
                | None \<Rightarrow> (ValueCell cell_class val None, None)))"

text \<open>
  \<^verbatim>\<open>valid_values\<close> and \<^verbatim>\<open>min_val\<close> of a row, from the values of \<^verbatim>\<open>row_values\<close>.
  The dictionary is the list of its items, one per available column; a column that is
  requested twice has its value twice, which changes neither the minimum nor whether
  there is one.
\<close>

definition valid_values :: "(string \<times> real option) list \<Rightarrow> real list" where
  "valid_values row_values =
     List.map_filter (\<lambda>(c, v). case v of Some x \<Rightarrow> if x < OUTLIER_THRESHOLD then Some x else None
                                  | None \<Rightarrow> None) row_values"

definition min_of :: "real list \<Rightarrow> real option" where
  "min_of vs = (case vs of [] \<Rightarrow> None | x # xs \<Rightarrow> Some (fold min xs x))"

text \<open>\<^verbatim>\<open>row_values.get('base', np.nan)\<close>.\<close>

definition baseline_of :: "(string \<times> real option) list \<Rightarrow> real option" where
  "baseline_of row_values = (case map_of row_values ''base'' of Some v \<Rightarrow> v | None \<Rightarrow> None)"

text \<open>
  The loop over the columns, threading \<^verbatim>\<open>pct_changes\<close>. The dictionary has the key
  of every available column other than \<^verbatim>\<open>base\<close>, and only these are read or
  written, so it is a function from the column to its list.
\<close>

fun cells_loop :: "real option \<Rightarrow> real option \<Rightarrow> (string \<times> real option) list \<Rightarrow>
    (string \<Rightarrow> fl list) \<Rightarrow> td list \<times> (string \<Rightarrow> fl list)" where
  "cells_loop min_val baseline_val [] pct_changes = ([], pct_changes)"
| "cells_loop min_val baseline_val ((col, v) # rest) pct_changes =
     (let (cell, p) = cell_html min_val baseline_val col v;
          pct_changes' = (case p of Some x \<Rightarrow> pct_changes(col := pct_changes col @ [x])
                                  | None \<Rightarrow> pct_changes);
          (cells, pct_changes'') = cells_loop min_val baseline_val rest pct_changes'
      in (cell # cells, pct_changes''))"

text \<open>One pass of the loop over the sequences: the row written for \<open>seq\<close>.\<close>

definition row_html :: "pivot_table \<Rightarrow> string list \<Rightarrow> string option \<Rightarrow>
    (string \<Rightarrow> fl list) \<Rightarrow> td list \<times> (string \<Rightarrow> fl list)" where
  "row_html table_df available_cols seq pct_changes =
     (let row_values = map (\<lambda>col. (col, loc table_df seq (Some col))) available_cols;
          min_val = min_of (valid_values row_values);
          baseline_val = baseline_of row_values;
          (cells, pct_changes') = cells_loop min_val baseline_val row_values pct_changes
      in (SeqCell seq # cells, pct_changes'))"

fun rows_loop :: "pivot_table \<Rightarrow> string list \<Rightarrow> string option list \<Rightarrow>
    (string \<Rightarrow> fl list) \<Rightarrow> td list list \<times> (string \<Rightarrow> fl list)" where
  "rows_loop table_df available_cols [] pct_changes = ([], pct_changes)"
| "rows_loop table_df available_cols (seq # seqs) pct_changes =
     (let (row, pct_changes') = row_html table_df available_cols seq pct_changes;
          (rows, pct_changes'') = rows_loop table_df available_cols seqs pct_changes'
      in (row # rows, pct_changes''))"

text \<open>The average row: the label, one dash for the baseline, one cell per other column.\<close>

fun avg_cells :: "string list \<Rightarrow> (string \<Rightarrow> fl list) \<Rightarrow> td list" where
  "avg_cells [] pct_changes = []"
| "avg_cells (col # cols) pct_changes =
     (if col = ''base'' then avg_cells cols pct_changes
      else if pct_changes col \<noteq> []
      then (let avg_pct = np_mean (pct_changes col)
            in AvgCell (pct_class_of avg_pct) avg_pct # avg_cells cols pct_changes)
      else Dash # avg_cells cols pct_changes)"

definition avg_row_html :: "string list \<Rightarrow> (string \<Rightarrow> fl list) \<Rightarrow> td list" where
  "avg_row_html available_cols pct_changes = AvgLabel # Dash # avg_cells available_cols pct_changes"

record table_html =
  t_title :: string
  t_head :: "th list"
  t_rows :: "td list list"
  t_avg_row :: "td list"

text \<open>
  \<^verbatim>\<open>generate_table_html\<close>, with the globals \<^verbatim>\<open>pivot_df\<close> and \<^verbatim>\<open>sequences\<close> as
  arguments. \<open>None\<close> is the early return after the warning, where no file is written;
  \<open>Some t\<close> is the table written to the output file.
\<close>

definition generate_table_html :: "pivot_table \<Rightarrow> string option list \<Rightarrow> string \<Rightarrow> string list \<Rightarrow>
    table_html option" where
  "generate_table_html pivot_df sequences title columns =
     (let available_cols = filter (\<lambda>c. Some c \<in> set (p_columns pivot_df)) columns in
      if available_cols = [] then None
      else
        let (rows, pct_changes) = rows_loop pivot_df available_cols sequences (\<lambda>col. [])
        in Some \<lparr> t_title = title,
                  t_head = SeqHead # map ColHead available_cols,
                  t_rows = rows,
                  t_avg_row = avg_row_html available_cols pct_changes \<rparr>)"

section \<open>Reporter: the groups and the index\<close>

record table_config =
  cfg_title :: string
  cfg_columns :: "string list"
  cfg_filename :: string
  cfg_description :: string

definition tables_config :: "table_config list" where
  "tables_config =
    [\<lparr> cfg_title = ''Baseline vs Depth Optimization (and Log Opt)'',
       cfg_columns = [''base'', ''daac_depth_opt_w100'', ''daac_depth_opt_w500'',
                      ''daac_depth_opt_w1000'', ''daac_depth_opt_log_w100''],
       cfg_filename = ''baseline_vs_depth_opt.html'',
       cfg_description = ''Comparison of baseline with depth optimization variants (w100, w500, w1000) and log optimization.'' \<rparr>,
     \<lparr> cfg_title = ''Baseline vs RGD (Inverse + Metric)'',
       cfg_columns = [''base'', ''daac_rgd_inv'', ''daac_rgd_metric''],
       cfg_filename = ''baseline_vs_rgd.html'',
       cfg_description = ''Comparison of baseline with inverse depth RGD and metric RGD variants.'' \<rparr>,
     \<lparr> cfg_title = ''Baseline vs Mahalanobis Optimization'',
       cfg_columns = [''base'', ''daac_depth_opt_mahalanobis_w100'', ''daac_depth_opt_mahalanobis_w500'',
                      ''daac_depth_opt_mahalanobis_w1000'', ''daac_depth_opt_log_mahalanobis_w30''],
       cfg_filename = ''baseline_vs_mahal.html'',
       cfg_description = ''Comparison of baseline with Mahalanobis depth optimization variants.'' \<rparr>,
     \<lparr> cfg_title = ''Depth Opt vs Mahalanobis Opt'',
       cfg_columns = [''base'', ''daac_depth_opt_w100'', ''daac_depth_opt_mahalanobis_w100'',
                      ''daac_depth_opt_w500'', ''daac_depth_opt_mahalanobis_w500'',
                      ''daac_depth_opt_w1000'', ''daac_depth_opt_mahalanobis_w1000''],
       cfg_filename = ''depth_opt_vs_mahal.html'',
       cfg_description = ''Side-by-side comparison of regular depth optimization vs Mahalanobis optimization.'' \<rparr>,
     \<lparr> cfg_title = ''Baseline vs All Variants'',
       cfg_columns = [''base'', ''daac_depth_opt_w100'', ''daac_depth_opt_w500'', ''daac_depth_opt_w1000'',
                      ''daac_depth_opt_log_w100'', ''daac_depth_opt_mahalanobis_w100'',
                      ''daac_depth_opt_mahalanobis_w500'', ''daac_depth_opt_mahalanobis_w1000'',
                      ''daac_depth_opt_log_mahalanobis_w30'', ''daac_rgd_inv'', ''daac_rgd_metric''],
       cfg_filename = ''baseline_vs_all.html'',
       cfg_description = ''Comparison of baseline with all available variants.'' \<rparr>]"

text \<open>
  The state of the loop over \<^verbatim>\<open>tables_config\<close>: the files written so far, each
  with the table in it, and \<^verbatim>\<open>tables_list\<close>, the entries
  \<^verbatim>\<open>(title, filename, description)\<close> that the index page is rendered from.
\<close>

record report =
  written :: "(string \<times> table_html) list"
  tables_list :: "(string \<times> string \<times> string) list"

text \<open>
  One pass of the loop: \<^verbatim>\<open>generate_table_html\<close> writes the file or returns early,
  and the entry is appended to \<^verbatim>\<open>tables_list\<close> after the call either way.
\<close>

definition generate_step :: "pivot_table \<Rightarrow> string option list \<Rightarrow> report \<Rightarrow> table_config \<Rightarrow> report" where
  "generate_step pivot_df sequences st config =
     (let st' = (case generate_table_html pivot_df sequences (cfg_title config) (cfg_columns config) of
                   Some t \<Rightarrow> st\<lparr> written := written st @ [(cfg_filename config, t)] \<rparr>
                 | None \<Rightarrow> st)
      in st'\<lparr> tables_list := tables_list st' @
                   [(cfg_title config, cfg_filename config, cfg_description config)] \<rparr>)"

definition generate_tables :: "pivot_table \<Rightarrow> string option list \<Rightarrow> table_config list \<Rightarrow> report" where
  "generate_tables pivot_df sequences configs =
     foldl (generate_step pivot_df sequences) \<lparr> written = [], tables_list = [] \<rparr> configs"

text \<open>
  The script from the CSV to the index: \<^verbatim>\<open>generate_index_html\<close> renders one card
  per entry of \<^verbatim>\<open>tables_list\<close>, so the index page is that list.
\<close>

definition reporter_main :: "csv_row list \<Rightarrow> py_error + report" where
  "reporter_main df =
     (case parse_all df of
        Inl e \<Rightarrow> Inl e
      | Inr keyed \<Rightarrow>
          (case pivot keyed of
             Inl e \<Rightarrow> Inl e
           | Inr pivot_df \<Rightarrow>
               (case py_sorted (p_index pivot_df) of
                  Inl e \<Rightarrow> Inl e
                | Inr sequences \<Rightarrow> Inr (generate_tables pivot_df sequences tables_config))))"

section \<open>Extractor: reading a results file\<close>

text \<open>
  \<^verbatim>\<open>re.findall(r'rmse\s+([\d.]+)', content, re.IGNORECASE)\<close> on ASCII text. The
  whitespace class \<^verbatim>\<open>\s\<close> holds the space, the characters 0x09 to 0x0D and 0x1C
  to 0x1F; \<^verbatim>\<open>\d\<close> holds the ten digits.
\<close>

definition is_space :: "char \<Rightarrow> bool" where
  "is_space c \<longleftrightarrow> c \<in> set [CHR '' '', CHR 0x09, CHR 0x0A, CHR 0x0B, CHR 0x0C, CHR 0x0D,
                             CHR 0x1C, CHR 0x1D, CHR 0x1E, CHR 0x1F]"

definition is_digit :: "char \<Rightarrow> bool" where
  "is_digit c \<longleftrightarrow> c \<in> set ''0123456789''"

definition is_token_char :: "char \<Rightarrow> bool" where
  "is_token_char c \<longleftrightarrow> is_digit c \<or> c = CHR ''.''"

text \<open>The literal \<^verbatim>\<open>rmse\<close> in either case at the head of the text; the result is the rest.\<close>

fun match_rmse :: "string \<Rightarrow> string option" where
  "match_rmse (c1 # c2 # c3 # c4 # rest) =
     (if (c1 = CHR ''r'' \<or> c1 = CHR ''R'') \<and> (c2 = CHR ''m'' \<or> c2 = CHR ''M'')
         \<and> (c3 = CHR ''s'' \<or> c3 = CHR ''S'') \<and> (c4 = CHR ''e'' \<or> c4 = CHR ''E'')
      then Some rest else None)"
| "match_rmse cs = None"

text \<open>
  A match of the whole pattern at the head of the text: the captured group and the
  length of the match. Both repetitions are greedy; no whitespace character is a token
  character, so giving back whitespace never turns a failure into a match.
\<close>

definition match_here :: "string \<Rightarrow> (string \<times> nat) option" where
  "match_here s =
     (case match_rmse s of
        None \<Rightarrow> None
      | Some rest \<Rightarrow>
          let ws = takeWhile is_space rest;
              tok = takeWhile is_token_char (dropWhile is_space rest)
          in if ws = [] \<or> tok = [] then None
             else Some (tok, 4 + length ws + length tok))"

text \<open>
  The scan from left to right: after a match the search goes on behind it, else one
  character further. The first argument counts the characters of the last match that
  are still to be skipped.
\<close>

fun findall_from :: "nat \<Rightarrow> string \<Rightarrow> string list" where
  "findall_from k [] = []"
| "findall_from (Suc k) (c # cs) = findall_from k cs"
| "findall_from 0 (c # cs) =
     (case match_here (c # cs) of
        None \<Rightarrow> findall_from 0 cs
      | Some (tok, n) \<Rightarrow> tok # findall_from (n - 1) cs)"

definition findall :: "string \<Rightarrow> string list" where
  "findall content = findall_from 0 content"

text \<open>
  \<^verbatim>\<open>float(r)\<close> on a token of digits and dots: digits with at most one dot and at
  least one digit are a number, every other token raises \<^verbatim>\<open>ValueError\<close>. The value
  is the decimal number itself (a token too long for a double is not considered).
\<close>

definition digit_val :: "char \<Rightarrow> nat" where
  "digit_val c = length (takeWhile (\<lambda>d. d \<noteq> c) ''0123456789'')"

definition dec :: "string \<Rightarrow> nat" where
  "dec ds = foldl (\<lambda>a c. 10 * a + digit_val c) 0 ds"

definition py_float :: "string \<Rightarrow> py_error + real" where
  "py_float r =
     (let ip = takeWhile is_digit r in
      case dropWhile is_digit r of
        [] \<Rightarrow> if ip = [] then Inl ValueError else Inr (real (dec ip))
      | c # fp \<Rightarrow>
          if c = CHR ''.'' \<and> list_all is_digit fp \<and> (ip \<noteq> [] \<or> fp \<noteq> [])
          then Inr (real (dec ip) + real (dec fp) / 10 ^ length fp)
          else Inl ValueError)"

text \<open>The list comprehension \<^verbatim>\<open>[float(r) for r in rmse_matches]\<close>: the first failure raises.\<close>

fun floats_of :: "string list \<Rightarrow> py_error + real list" where
  "floats_of [] = Inr []"
| "floats_of (r # rs) =
     (case py_float r of
        Inl e \<Rightarrow> Inl e
      | Inr x \<Rightarrow> (case floats_of rs of Inl e \<Rightarrow> Inl e | Inr xs \<Rightarrow> Inr (x # xs)))"

text \<open>
  \<^verbatim>\<open>parse_results_file\<close>. The argument is the content of the file, \<open>None\<close> when the
  path does not exist; the result \<open>None\<close> is Python's \<^verbatim>\<open>None\<close>.
\<close>

definition parse_results_file :: "string option \<Rightarrow> py_error + real list option" where
  "parse_results_file file =
     (case file of
        None \<Rightarrow> Inr None
      | Some content \<Rightarrow>
          (case floats_of (findall content) of
             Inl e \<Rightarrow> Inl e
           | Inr rmse_values \<Rightarrow> if rmse_values = [] then Inr None else Inr (Some rmse_values)))"

section \<open>Extractor: the summary rows\<close>

text \<open>The numpy reductions. \<^verbatim>\<open>np.mean\<close> is \<open>np_mean\<close> above, on the finite values.\<close>

definition np_median :: "real list \<Rightarrow> fl" where
  "np_median xs =
     (if xs = [] then NaN
      else let n = length xs;
               part = (if n mod 2 = 1 then take 1 (drop (n div 2) (sort xs))
                       else take 2 (drop (n div 2 - 1) (sort xs)))
           in np_mean (map Fin part))"

text \<open>
  The median as the specification words it, for comparison with \<open>np_median\<close>: the
  middle value of the sorted observations, and the average of the two middle values
  when their number is even.
\<close>

definition standard_median :: "real list \<Rightarrow> real" where
  "standard_median xs =
     (let s = sort xs; n = length xs in
      if odd n then s ! (n div 2) else (s ! (n div 2 - 1) + s ! (n div 2)) / 2)"

definition np_min :: "real list \<Rightarrow> py_error + real" where
  "np_min xs = (case xs of [] \<Rightarrow> Inl ValueError | x # r \<Rightarrow> Inr (fold min r x))"

definition np_max :: "real list \<Rightarrow> py_error + real" where
  "np_max xs = (case xs of [] \<Rightarrow> Inl ValueError | x # r \<Rightarrow> Inr (fold max r x))"

text \<open>\<^verbatim>\<open>rmse_values[-1]\<close>.\<close>

definition py_last :: "real list \<Rightarrow> py_error + real" where
  "py_last xs = (if xs = [] then Inl IndexError else Inr (last xs))"

text \<open>The decimal text of a number, as \<^verbatim>\<open>f'run_{i}'\<close> prints it.\<close>

fun str_nat :: "nat \<Rightarrow> string" where
  "str_nat n =
     (if n < 10 then [''0123456789'' ! n]
      else str_nat (n div 10) @ [''0123456789'' ! (n mod 10)])"

declare str_nat.simps [simp del]

text \<open>
  The cells of a row and of the data frame. A row is the dictionary that
  \<^verbatim>\<open>scan_results\<close> builds, as the list of its items in insertion order.
\<close>

datatype cell_value = CStr string | CInt nat | CFloat fl

type_synonym row = "(string \<times> cell_value) list"

definition make_row :: "string \<Rightarrow> real list \<Rightarrow> py_error + row" where
  "make_row dirname rmse_values =
     (case np_min rmse_values of
        Inl e \<Rightarrow> Inl e
      | Inr mn \<Rightarrow>
     (case np_max rmse_values of
        Inl e \<Rightarrow> Inl e
      | Inr mx \<Rightarrow>
     (case py_last rmse_values of
        Inl e \<Rightarrow> Inl e
      | Inr lst \<Rightarrow>
          Inr ([(''name'', CStr dirname),
                (''num_runs'', CInt (length rmse_values)),
                (''rmse_mean'', CFloat (np_mean (map Fin rmse_values))),
                (''rmse_median'', CFloat (np_median rmse_values)),
                (''rmse_min'', CFloat (Fin mn)),
                (''rmse_max'', CFloat (Fin mx)),
                (''rmse_last'', CFloat (Fin lst))]
               @ map (\<lambda>(i, val). (''run_'' @ str_nat i, CFloat (Fin val)))
                   (enumerate 1 rmse_values)))))"

text \<open>
  The loop of \<^verbatim>\<open>scan_results\<close> over the sorted directories. An entry is the name
  of a directory and the content of its \<^verbatim>\<open>results.txt\<close>, if the file exists.
\<close>

fun scan_loop :: "(string \<times> string option) list \<Rightarrow> py_error + row list" where
  "scan_loop [] = Inr []"
| "scan_loop ((dirname, file) # dirs) =
     (case parse_results_file file of
        Inl e \<Rightarrow> Inl e
      | Inr rmse_values \<Rightarrow>
          (case rmse_values of
             Some (v # vs) \<Rightarrow>
               (case make_row dirname (v # vs) of
                  Inl e \<Rightarrow> Inl e
                | Inr r \<Rightarrow>
                    (case scan_loop dirs of Inl e \<Rightarrow> Inl e | Inr results \<Rightarrow> Inr (r # results)))
           | _ \<Rightarrow> scan_loop dirs))"

text \<open>
  \<^verbatim>\<open>scan_results\<close>. The argument lists the entries of the base directory (none when
  the directory is missing); \<^verbatim>\<open>glob\<close> keeps the names that start with \<^verbatim>\<open>spot_\<close>
  and \<^verbatim>\<open>sorted\<close> orders them. The progress lines that the loop prints are not
  modelled.
\<close>

definition startswith :: "string \<Rightarrow> string \<Rightarrow> bool" where
  "startswith s p \<longleftrightarrow> take (length p) s = p"

definition scan_results :: "(string \<times> string option) list \<Rightarrow> py_error + row list" where
  "scan_results base_dir =
     scan_loop (sort_key fst (filter (\<lambda>(dirname, file). startswith dirname ''spot_'') base_dir))"

section \<open>Extractor: the data frame and the CSV\<close>

text \<open>
  \<^verbatim>\<open>pd.DataFrame(results)\<close>: the columns are the keys of the rows in the order of
  their first appearance; a frame made from no row has no column.
\<close>

record data_frame =
  df_columns :: "string list"
  df_rows :: "row list"

definition DataFrame :: "row list \<Rightarrow> data_frame" where
  "DataFrame results =
     \<lparr> df_columns = rev (remdups (rev (concat (map (map fst) results)))), df_rows = results \<rparr>"

text \<open>\<^verbatim>\<open>int(x.split('_')[1])\<close> on a column name that starts with \<^verbatim>\<open>run_\<close>.\<close>

definition run_index :: "string \<Rightarrow> py_error + nat" where
  "run_index x =
     (let field = takeWhile (\<lambda>c. c \<noteq> CHR ''_'') (drop 4 x) in
      if field \<noteq> [] \<and> list_all is_digit field then Inr (dec field) else Inl ValueError)"

fun run_indices :: "string list \<Rightarrow> py_error + (nat \<times> string) list" where
  "run_indices [] = Inr []"
| "run_indices (c # cs) =
     (case run_index c of
        Inl e \<Rightarrow> Inl e
      | Inr i \<Rightarrow> (case run_indices cs of Inl e \<Rightarrow> Inl e | Inr r \<Rightarrow> Inr ((i, c) # r)))"

text \<open>\<^verbatim>\<open>df[cols]\<close>: a requested column that the frame does not have raises \<^verbatim>\<open>KeyError\<close>.\<close>

definition select_columns :: "data_frame \<Rightarrow> string list \<Rightarrow> py_error + data_frame" where
  "select_columns df cols =
     (if list_all (\<lambda>c. c \<in> set (df_columns df)) cols then Inr (df\<lparr> df_columns := cols \<rparr>)
      else Inl KeyError)"

definition base_cols :: "string list" where
  "base_cols = [''name'', ''num_runs'', ''rmse_mean'', ''rmse_median'', ''rmse_min'', ''rmse_max'',
                ''rmse_last'']"

text \<open>
  \<^verbatim>\<open>df.to_csv\<close>: the header and, per row, the cell of each column; a row without
  the column has an empty cell (\<open>None\<close>).
\<close>

definition to_csv :: "data_frame \<Rightarrow> string list \<times> cell_value option list list" where
  "to_csv df = (df_columns df, map (\<lambda>r. map (map_of r) (df_columns df)) (df_rows df))"

text \<open>The script of the Extractor, from the directory listing to the CSV that it writes.\<close>

definition extractor_main ::
    "(string \<times> string option) list \<Rightarrow> py_error + string list \<times> cell_value option list list" where
  "extractor_main base_dir =
     (case scan_results base_dir of
        Inl e \<Rightarrow> Inl e
      | Inr results \<Rightarrow>
          let df = DataFrame results in
          (case run_indices (filter (\<lambda>c. startswith c ''run_'') (df_columns df)) of
             Inl e \<Rightarrow> Inl e
           | Inr keyed \<Rightarrow>
               let run_cols = map snd (sort_key fst keyed) in
               (case select_columns df (base_cols @ run_cols) of
                  Inl e \<Rightarrow> Inl e
                | Inr df' \<Rightarrow> Inr (to_csv df'))))"

section \<open>Properties of name parsing\<close>

lemma endswith_append: "endswith (seq @ marker) marker"
  by (simp add: endswith_def)

lemma endswith_suffix: "endswith name marker \<longleftrightarrow> suffix marker name"
proof
  assume "endswith name marker"
  then have "name = take (length name - length marker) name @ marker"
    by (metis append_take_drop_id endswith_def)
  then show "suffix marker name"
    by (metis suffixI)
next
  assume "suffix marker name"
  then obtain p where "name = p @ marker"
    by (auto simp: suffix_def)
  then show "endswith name marker"
    by (simp add: endswith_def)
qed

lemma markers_antichain:
  "\<forall>m1 \<in> set variant_markers. \<forall>m2 \<in> set variant_markers. endswith m2 m1 \<longrightarrow> m1 = m2"
  unfolding variant_markers_def by (simp add: endswith_def)

lemma parse_name_loop_unique:
  "m \<in> set ms \<Longrightarrow> endswith name m \<Longrightarrow> (\<forall>m' \<in> set ms. endswith name m' \<longrightarrow> m' = m) \<Longrightarrow>
   parse_name_loop ms name = (Some (take (length name - length m) name), Some (drop 1 m))"
proof (induction ms)
  case Nil
  then show ?case by simp
next
  case (Cons a ms)
  show ?case
  proof (cases "endswith name a")
    case True
    with Cons.prems(3) have "a = m" by simp
    with True show ?thesis by simp
  next
    case False
    with Cons.prems(1,2) have "m \<in> set ms" by auto
    moreover have "\<forall>m' \<in> set ms. endswith name m' \<longrightarrow> m' = m" using Cons.prems(3) by simp
    ultimately have "parse_name_loop ms name = (Some (take (length name - length m) name), Some (drop 1 m))"
      using Cons.IH Cons.prems(2) by blast
    with False show ?thesis by simp
  qed
qed

lemma parse_name_loop_none:
  "(\<forall>m \<in> set ms. \<not> endswith name m) \<Longrightarrow> parse_name_loop ms name = (None, None)"
  by (induction ms) simp_all

lemma marker_unique:
  assumes "m \<in> set variant_markers" "m' \<in> set variant_markers" "endswith name m" "endswith name m'"
  shows "m' = m"
proof -
  have "suffix m name" "suffix m' name" using assms by (simp_all add: endswith_suffix)
  then have "suffix m m' \<or> suffix m' m" by (rule suffix_same_cases)
  then have "endswith m' m \<or> endswith m m'" by (simp add: endswith_suffix)
  then show ?thesis using markers_antichain assms(1,2) by blast
qed

lemma parse_name_of_marker:
  assumes "m \<in> set variant_markers" "endswith name m"
  shows "parse_name name = (Some (take (length name - length m) name), Some (drop 1 m))"
proof -
  have "\<forall>m' \<in> set variant_markers. endswith name m' \<longrightarrow> m' = m"
    using marker_unique [OF assms(1) _ assms(2)] by blast
  from parse_name_loop_unique [OF assms this] show ?thesis
    by (simp add: parse_name_def)
qed

lemma parse_name_append_marker:
  assumes "m \<in> set variant_markers"
  shows "parse_name (seq @ m) = (Some seq, Some (drop 1 m))"
proof -
  have "parse_name (seq @ m) = (Some (take (length (seq @ m) - length m) (seq @ m)), Some (drop 1 m))"
    using assms endswith_append by (rule parse_name_of_marker)
  then show ?thesis by simp
qed

text \<open>
  Claim C6. A name that ends in a known variant suffix \<open>m\<close> resolves to the variant
  \<open>m\<close> without its leading underscore and to the sequence before the suffix; \<open>m\<close> is
  the only marker that ends the name, so no shorter marker can be taken for it; and
  the name \<^verbatim>\<open>seq_daac_depth_opt_w100\<close> resolves to \<^verbatim>\<open>daac_depth_opt_w100\<close>.
  The result depends on the name alone.
\<close>

theorem parse_name_longest_suffix:
  assumes "m \<in> set variant_markers"
  shows "parse_name (seq @ m) = (Some seq, Some (drop 1 m))
     \<and> (\<forall>m' \<in> set variant_markers. endswith (seq @ m) m' \<longrightarrow> m' = m)
     \<and> parse_name ''seq_daac_depth_opt_w100'' = (Some ''seq'', Some ''daac_depth_opt_w100'')"
proof (intro conjI)
  show "parse_name (seq @ m) = (Some seq, Some (drop 1 m))"
    using assms by (rule parse_name_append_marker)
  show "\<forall>m' \<in> set variant_markers. endswith (seq @ m) m' \<longrightarrow> m' = m"
    using marker_unique [OF assms _ endswith_append] by blast
  show "parse_name ''seq_daac_depth_opt_w100'' = (Some ''seq'', Some ''daac_depth_opt_w100'')"
    by (simp add: parse_name_def variant_markers_def endswith_def)
qed

theorem parse_name_longest_suffix_witness:
  "''_base'' \<in> set variant_markers
   \<and> parse_name (''car_urban_day'' @ ''_base'') = (Some ''car_urban_day'', Some (drop 1 ''_base''))"
proof -
  have h: "''_base'' \<in> set variant_markers"
    unfolding variant_markers_def by simp
  from parse_name_longest_suffix [OF h, of "''car_urban_day''"]
  have "parse_name (''car_urban_day'' @ ''_base'') = (Some ''car_urban_day'', Some (drop 1 ''_base''))"
    by (rule conjunct1)
  with h show ?thesis by (rule conjI)
qed

section \<open>Properties of the rendered cells\<close>

lemma fold_min_in: "fold min xs (x::real) \<in> set (x # xs)"
proof (induction xs arbitrary: x)
  case Nil
  then show ?case by simp
next
  case (Cons a xs)
  have "fold min xs (min a x) \<in> set (min a x # xs)" by (rule Cons.IH)
  moreover have "min a x = a \<or> min a x = x" by (simp add: min_def)
  ultimately show ?case by auto
qed

lemma fold_min_le: "y \<in> set (x # xs) \<Longrightarrow> fold min xs (x::real) \<le> y"
proof (induction xs arbitrary: x y)
  case Nil
  then show ?case by simp
next
  case (Cons a xs)
  have 1: "fold min xs (min a x) \<le> min a x" using Cons.IH [of "min a x" "min a x"] by simp
  have 2: "y \<in> set xs \<Longrightarrow> fold min xs (min a x) \<le> y" using Cons.IH [of y "min a x"] by simp
  from Cons.prems consider "y = x" | "y = a" | "y \<in> set xs" by auto
  then show ?case
  proof cases
    case 1
    then show ?thesis using \<open>fold min xs (min a x) \<le> min a x\<close> by simp
  next
    case 2
    then show ?thesis using \<open>fold min xs (min a x) \<le> min a x\<close> by simp
  next
    case 3
    then show ?thesis using 2 by simp
  qed
qed

lemma min_of_Some:
  "min_of vs = Some m \<Longrightarrow> m \<in> set vs \<and> (\<forall>y \<in> set vs. m \<le> y)"
  using fold_min_in fold_min_le by (auto simp: min_of_def split: list.splits)

lemma length_cells_loop:
  "length (fst (cells_loop mn bl rv pcs)) = length rv"
proof (induction rv arbitrary: pcs)
  case Nil
  show ?case by simp
next
  case (Cons a rv)
  obtain col v where a: "a = (col, v)" by (cases a)
  show ?case unfolding a by (simp add: Let_def case_prod_beta Cons.IH)
qed

lemma length_row_html:
  "length (fst (row_html pv cols seq pcs)) = 1 + length cols"
  by (simp add: row_html_def Let_def case_prod_beta length_cells_loop)

lemma rows_loop_lengths:
  "length (fst (rows_loop pv cols seqs pcs)) = length seqs
   \<and> (\<forall>r \<in> set (fst (rows_loop pv cols seqs pcs)). length r = 1 + length cols)"
  by (induction seqs arbitrary: pcs) (simp_all add: Let_def case_prod_beta length_row_html)

lemma length_avg_cells:
  "length (avg_cells cols pcs) = length (filter (\<lambda>c. c \<noteq> ''base'') cols)"
  by (induction cols) (simp_all add: Let_def)

lemma avg_cells_class:
  "AvgCell c a \<in> set (avg_cells cols pcs) \<Longrightarrow> c = pct_class_of a"
  by (induction cols) (auto simp: Let_def split: if_splits)

lemma cells_loop_cells:
  "fst (cells_loop mn bl rv pcs) = map (\<lambda>(c, v). fst (cell_html mn bl c v)) rv"
proof (induction rv arbitrary: pcs)
  case Nil
  show ?case by simp
next
  case (Cons a rv)
  obtain col v where a: "a = (col, v)" by (cases a)
  show ?case unfolding a by (simp add: Let_def case_prod_beta Cons.IH)
qed

text \<open>
  The cells of a data row: the label of the sequence, then the \<open>cell_html\<close> cell of
  each available column, for the pivoted value of the row in that column.
\<close>

lemma row_html_cells:
  "fst (row_html table_df available_cols seq pct_changes) =
     SeqCell seq #
     map (\<lambda>col. fst (cell_html
            (min_of (valid_values (map (\<lambda>c. (c, loc table_df seq (Some c))) available_cols)))
            (baseline_of (map (\<lambda>c. (c, loc table_df seq (Some c))) available_cols))
            col (loc table_df seq (Some col))))
       available_cols"
  by (simp add: row_html_def Let_def case_prod_beta cells_loop_cells comp_def)

lemma set_valid_values:
  "set (valid_values rv) = {x. \<exists>c. (c, Some x) \<in> set rv \<and> x < OUTLIER_THRESHOLD}"
  by (induction rv) (auto simp: valid_values_def List.map_filter_simps split: option.splits if_splits)

lemma map_filter_map: "List.map_filter f (map g xs) = List.map_filter (\<lambda>x. f (g x)) xs"
  by (induction xs) (simp_all split: option.splits)

lemma cells_loop_changes:
  "snd (cells_loop mn bl rv pcs) =
     (\<lambda>col. pcs col @ List.map_filter (\<lambda>(c, v). if c = col then snd (cell_html mn bl c v) else None) rv)"
proof (induction rv arbitrary: pcs)
  case Nil
  show ?case by simp
next
  case (Cons a rv)
  obtain c v where a: "a = (c, v)" by (cases a)
  show ?case unfolding a
    by (rule ext) (simp add: Let_def case_prod_beta Cons.IH split: option.splits)
qed

lemma snd_cell_html:
  "snd (cell_html mn bl col w) =
     (case w of
        None \<Rightarrow> None
      | Some x \<Rightarrow>
          (case bl of
             None \<Rightarrow> None
           | Some y \<Rightarrow> if col \<noteq> ''base'' \<and> x < 10 \<and> y < 10 then Some (pct_change_of x y) else None))"
  by (simp add: cell_html_def Let_def OUTLIER_THRESHOLD_def split: option.splits)

lemma fst_cell_html:
  "fst (cell_html mn bl col w) =
     (case w of
        None \<Rightarrow> Dash
      | Some x \<Rightarrow>
          if x \<ge> 10 then OutlierCell
          else ValueCell (case mn of Some m \<Rightarrow> if \<bar>x - m\<bar> < 0.0001 then ''best'' else [] | None \<Rightarrow> []) x
                 (case snd (cell_html mn bl col w) of Some p \<Rightarrow> Some (pct_class_of p, p) | None \<Rightarrow> None))"
  by (simp add: cell_html_def Let_def OUTLIER_THRESHOLD_def split: option.splits)

lemma map_of_map_key:
  "map_of (map (\<lambda>c. (c, f c)) cols) k = (if k \<in> set cols then Some (f k) else None)"
  by (induction cols) simp_all

lemma baseline_of_row:
  "baseline_of (map (\<lambda>c. (c, f c)) cols) = (if ''base'' \<in> set cols then f ''base'' else None)"
  by (simp add: baseline_of_def map_of_map_key)

lemma set_valid_values_row:
  "set (valid_values (map (\<lambda>c. (c, f c)) cols)) = {x. \<exists>c \<in> set cols. f c = Some x \<and> x < 10}"
  by (force simp: set_valid_values OUTLIER_THRESHOLD_def)

lemma min_of_None: "min_of vs = None \<longleftrightarrow> vs = []"
  by (simp add: min_of_def split: list.splits)

lemma row_html_changes:
  "snd (row_html pv cols seq pcs) =
     (\<lambda>col. pcs col @
        List.map_filter
          (\<lambda>c. if c = col
               then snd (cell_html
                      (min_of (valid_values (map (\<lambda>c. (c, loc pv seq (Some c))) cols)))
                      (baseline_of (map (\<lambda>c. (c, loc pv seq (Some c))) cols))
                      c (loc pv seq (Some c)))
               else None) cols)"
  by (simp add: row_html_def Let_def case_prod_beta cells_loop_changes map_filter_map cong: if_cong)

text \<open>The percent change that the cell of column \<open>c\<close> in the row \<open>seq\<close> appends, if any.\<close>

lemma row_html_changes_pivot:
  "snd (row_html pv cols seq pcs) =
     (\<lambda>col. pcs col @
        List.map_filter
          (\<lambda>c. if c = col
               then (case loc pv seq (Some c) of
                       None \<Rightarrow> None
                     | Some x \<Rightarrow>
                         (case (if ''base'' \<in> set cols then loc pv seq (Some ''base'') else None) of
                            None \<Rightarrow> None
                          | Some y \<Rightarrow> if c \<noteq> ''base'' \<and> x < 10 \<and> y < 10
                                      then Some (pct_change_of x y) else None))
               else None) cols)"
  unfolding row_html_changes snd_cell_html baseline_of_row ..

lemma map_filter_single:
  "distinct cols \<Longrightarrow> col \<in> set cols \<Longrightarrow>
   List.map_filter (\<lambda>c. if c = col then g c else None) cols = (case g col of None \<Rightarrow> [] | Some p \<Rightarrow> [p])"
proof (induction cols)
  case Nil
  then show ?case by simp
next
  case (Cons a cols)
  show ?case
  proof (cases "a = col")
    case True
    with Cons.prems have "col \<notin> set cols" by simp
    then have "List.map_filter (\<lambda>c. if c = col then g c else None) cols = []"
      by (induction cols) auto
    with True show ?thesis by (simp split: option.splits)
  next
    case False
    with Cons show ?thesis by simp
  qed
qed

lemma concat_map_option:
  "concat (map (\<lambda>x. case g x of None \<Rightarrow> [] | Some p \<Rightarrow> [p]) xs) = List.map_filter g xs"
  by (induction xs) (simp_all split: option.splits)

lemma rows_loop_rows:
  "fst (rows_loop pv cols seqs pcs) = map (\<lambda>seq. fst (row_html pv cols seq (\<lambda>c. []))) seqs"
proof (induction seqs arbitrary: pcs)
  case Nil
  show ?case by simp
next
  case (Cons s seqs)
  have "fst (row_html pv cols s pcs) = fst (row_html pv cols s (\<lambda>c. []))"
    by (simp only: row_html_cells)
  then show ?case by (simp add: Let_def case_prod_beta Cons.IH)
qed

lemma rows_loop_changes:
  "snd (rows_loop pv cols seqs pcs) =
     (\<lambda>col. pcs col @ concat (map (\<lambda>seq. snd (row_html pv cols seq (\<lambda>c. [])) col) seqs))"
proof (induction seqs arbitrary: pcs)
  case Nil
  show ?case by simp
next
  case (Cons s seqs)
  have "snd (row_html pv cols s pcs) = (\<lambda>col. pcs col @ snd (row_html pv cols s (\<lambda>c. [])) col)"
    by (simp add: row_html_changes)
  then show ?case by (simp add: Let_def case_prod_beta Cons.IH)
qed

lemma avg_cells_map:
  "avg_cells cols pcs =
     map (\<lambda>col. if pcs col = [] then Dash
                else AvgCell (pct_class_of (np_mean (pcs col))) (np_mean (pcs col)))
       (filter (\<lambda>c. c \<noteq> ''base'') cols)"
  by (induction cols) (simp_all add: Let_def)

lemma column_changes:
  assumes "distinct cols" and "col \<in> set cols" and "col \<noteq> ''base''"
  shows "snd (rows_loop pv cols seqs (\<lambda>c. [])) col =
     List.map_filter
       (\<lambda>seq. case loc pv seq (Some col) of
                None \<Rightarrow> None
              | Some x \<Rightarrow>
                  (case (if ''base'' \<in> set cols then loc pv seq (Some ''base'') else None) of
                     None \<Rightarrow> None
                   | Some y \<Rightarrow> if x < 10 \<and> y < 10 then Some (pct_change_of x y) else None))
       seqs"
proof -
  let ?E = "\<lambda>seq c. case loc pv seq (Some c) of
                       None \<Rightarrow> None
                     | Some x \<Rightarrow>
                         (case (if ''base'' \<in> set cols then loc pv seq (Some ''base'') else None) of
                            None \<Rightarrow> None
                          | Some y \<Rightarrow> if c \<noteq> ''base'' \<and> x < 10 \<and> y < 10
                                      then Some (pct_change_of x y) else None)"
  have row: "snd (row_html pv cols seq (\<lambda>c. [])) col = (case ?E seq col of None \<Rightarrow> [] | Some p \<Rightarrow> [p])" for seq
    using map_filter_single [OF assms(1,2), of "?E seq"]
    by (simp add: row_html_changes_pivot)
  have "snd (rows_loop pv cols seqs (\<lambda>c. [])) col =
      concat (map (\<lambda>seq. case ?E seq col of None \<Rightarrow> [] | Some p \<Rightarrow> [p]) seqs)"
    by (simp add: rows_loop_changes row)
  also have "\<dots> = List.map_filter (\<lambda>seq. ?E seq col) seqs"
    by (rule concat_map_option)
  finally show ?thesis using assms(3) by (simp cong: option.case_cong if_cong)
qed

lemma generate_table_html_Some:
  assumes "generate_table_html pv seqs title columns = Some t"
    and "available = filter (\<lambda>c. Some c \<in> set (p_columns pv)) columns"
  shows "available \<noteq> []"
    and "t_head t = SeqHead # map ColHead available"
    and "t_rows t = fst (rows_loop pv available seqs (\<lambda>col. []))"
    and "t_avg_row t = avg_row_html available (snd (rows_loop pv available seqs (\<lambda>col. [])))"
proof -
  from assms show ne: "available \<noteq> []"
    by (auto simp: generate_table_html_def Let_def split: if_splits)
  with assms have t: "t = \<lparr> t_title = title, t_head = SeqHead # map ColHead available,
        t_rows = fst (rows_loop pv available seqs (\<lambda>col. [])),
        t_avg_row = avg_row_html available (snd (rows_loop pv available seqs (\<lambda>col. []))) \<rparr>"
    by (simp add: generate_table_html_def Let_def case_prod_beta)
  show "t_head t = SeqHead # map ColHead available" by (simp add: t)
  show "t_rows t = fst (rows_loop pv available seqs (\<lambda>col. []))" by (simp add: t)
  show "t_avg_row t = avg_row_html available (snd (rows_loop pv available seqs (\<lambda>col. [])))"
    by (simp add: t)
qed

lemma table_cell:
  assumes "generate_table_html pv seqs title columns = Some t"
    and "available = filter (\<lambda>c. Some c \<in> set (p_columns pv)) columns"
    and "i < length seqs" and "j < length available"
  shows "t_rows t ! i ! Suc j =
     fst (cell_html
            (min_of (valid_values (map (\<lambda>c. (c, loc pv (seqs ! i) (Some c))) available)))
            (if ''base'' \<in> set available then loc pv (seqs ! i) (Some ''base'') else None)
            (available ! j) (loc pv (seqs ! i) (Some (available ! j))))"
  using assms(3,4)
  by (simp add: generate_table_html_Some(3) [OF assms(1,2)] rows_loop_rows row_html_cells baseline_of_row)

lemma table_avg_row:
  assumes "generate_table_html pv seqs title columns = Some t"
    and "available = filter (\<lambda>c. Some c \<in> set (p_columns pv)) columns"
    and "distinct available"
  shows "t_avg_row t =
     AvgLabel # Dash #
     map (\<lambda>col.
            (\<lambda>changes. if changes = [] then Dash
                       else AvgCell (pct_class_of (np_mean changes)) (np_mean changes))
            (List.map_filter
               (\<lambda>seq. case loc pv seq (Some col) of
                        None \<Rightarrow> None
                      | Some x \<Rightarrow>
                          (case (if ''base'' \<in> set available then loc pv seq (Some ''base'') else None) of
                             None \<Rightarrow> None
                           | Some y \<Rightarrow> if x < 10 \<and> y < 10 then Some (pct_change_of x y) else None))
               seqs))
       (filter (\<lambda>c. c \<noteq> ''base'') available)"
proof -
  have "col \<in> set (filter (\<lambda>c. c \<noteq> ''base'') available) \<Longrightarrow>
      snd (rows_loop pv available seqs (\<lambda>c. [])) col =
      List.map_filter
               (\<lambda>seq. case loc pv seq (Some col) of
                        None \<Rightarrow> None
                      | Some x \<Rightarrow>
                          (case (if ''base'' \<in> set available then loc pv seq (Some ''base'') else None) of
                             None \<Rightarrow> None
                           | Some y \<Rightarrow> if x < 10 \<and> y < 10 then Some (pct_change_of x y) else None))
               seqs" for col
    using column_changes [OF assms(3), of col pv seqs] by simp
  then show ?thesis
    by (simp add: generate_table_html_Some(4) [OF assms(1,2)] avg_row_html_def avg_cells_map
        cong: map_cong)
qed

lemma table_cell_annotated:
  assumes "generate_table_html pivot_df sequences title columns = Some t"
    and "available_cols = filter (\<lambda>c. Some c \<in> set (p_columns pivot_df)) columns"
    and "i < length sequences" and "j < length available_cols"
    and "''base'' \<in> set available_cols" and "available_cols ! j \<noteq> ''base''"
    and "loc pivot_df (sequences ! i) (Some (available_cols ! j)) = Some v" and "v < 10"
    and "loc pivot_df (sequences ! i) (Some ''base'') = Some b" and "b < 10"
  shows "\<exists>cell_class. t_rows t ! i ! Suc j =
           ValueCell cell_class v (Some (pct_class_of (pct_change_of v b), pct_change_of v b))"
  using assms(5-10)
  by (simp add: table_cell [OF assms(1-4)] fst_cell_html snd_cell_html)

lemma distinct_available:
  "distinct columns \<Longrightarrow> distinct (filter (\<lambda>c. Some c \<in> set (p_columns pivot_df)) columns)"
  by simp

text \<open>
  Claim C8. In a written table, the cell of a present non-outlier value \<open>v\<close> in a
  column other than \<^verbatim>\<open>base\<close>, in a row whose baseline \<open>b\<close> (the value of the row in
  the \<^verbatim>\<open>base\<close> column) is present and not an outlier, shows the percent change
  \<open>(v - b) / b * 100\<close>; for \<open>b = 0\<close> this is the float value of the quotient, an
  infinity with the sign of \<open>v\<close>, or \<^verbatim>\<open>nan\<close> for \<open>v = 0\<close>. Baseline 1.0 with value
  0.5 gives \<open>-50\<close>, an improvement; with value 2.0 it gives \<open>+100\<close>, a degradation.
  The average row averages, per column, exactly these changes over the rows.
\<close>

theorem percent_change_formula:
  assumes "generate_table_html pivot_df sequences title columns = Some t"
    and "available_cols = filter (\<lambda>c. Some c \<in> set (p_columns pivot_df)) columns"
    and "i < length sequences" and "j < length available_cols"
    and "''base'' \<in> set available_cols" and "available_cols ! j \<noteq> ''base''"
    and "loc pivot_df (sequences ! i) (Some (available_cols ! j)) = Some v" and "v < 10"
    and "loc pivot_df (sequences ! i) (Some ''base'') = Some b" and "b < 10"
  shows "(\<exists>cell_class. t_rows t ! i ! Suc j =
            ValueCell cell_class v (Some (pct_class_of (pct_change_of v b), pct_change_of v b)))
    \<and> (b \<noteq> 0 \<longrightarrow> pct_change_of v b = Fin ((v - b) / b * 100))
    \<and> (b = 0 \<longrightarrow> pct_change_of v b = (if v > 0 then PInf else if v < 0 then NInf else NaN))
    \<and> pct_change_of 0.5 1.0 = Fin (- 50.0) \<and> pct_class_of (Fin (- 50.0)) = ''improvement''
    \<and> pct_change_of 2.0 1.0 = Fin 100.0 \<and> pct_class_of (Fin 100.0) = ''degradation''
    \<and> (distinct columns \<longrightarrow>
        t_avg_row t =
          AvgLabel # Dash #
          map (\<lambda>col.
                 (\<lambda>changes. if changes = [] then Dash
                            else AvgCell (pct_class_of (np_mean changes)) (np_mean changes))
                 (List.map_filter
                    (\<lambda>seq. case loc pivot_df seq (Some col) of
                             None \<Rightarrow> None
                           | Some x \<Rightarrow>
                               (case (if ''base'' \<in> set available_cols
                                      then loc pivot_df seq (Some ''base'') else None) of
                                  None \<Rightarrow> None
                                | Some y \<Rightarrow> if x < 10 \<and> y < 10 then Some (pct_change_of x y) else None))
                    sequences))
            (filter (\<lambda>c. c \<noteq> ''base'') available_cols))"
proof (intro conjI impI)
  show "\<exists>cell_class. t_rows t ! i ! Suc j =
            ValueCell cell_class v (Some (pct_class_of (pct_change_of v b), pct_change_of v b))"
    using assms by (rule table_cell_annotated)
  show "pct_change_of v b = Fin ((v - b) / b * 100)" if "b \<noteq> 0"
    using that by (simp add: pct_change_of_def)
  show "pct_change_of v b = (if v > 0 then PInf else if v < 0 then NInf else NaN)" if "b = 0"
    using that by (simp add: pct_change_of_def)
  show "pct_change_of 0.5 1.0 = Fin (- 50.0)" by (simp add: pct_change_of_def)
  show "pct_class_of (Fin (- 50.0)) = ''improvement''" by (simp add: pct_class_of_def)
  show "pct_change_of 2.0 1.0 = Fin 100.0" by (simp add: pct_change_of_def)
  show "pct_class_of (Fin 100.0) = ''degradation''" by (simp add: pct_class_of_def)
next
  assume "distinct columns"
  then have "distinct available_cols" unfolding assms(2) by (rule distinct_available)
  with assms(1,2) show "t_avg_row t =
          AvgLabel # Dash #
          map (\<lambda>col.
                 (\<lambda>changes. if changes = [] then Dash
                            else AvgCell (pct_class_of (np_mean changes)) (np_mean changes))
                 (List.map_filter
                    (\<lambda>seq. case loc pivot_df seq (Some col) of
                             None \<Rightarrow> None
                           | Some x \<Rightarrow>
                               (case (if ''base'' \<in> set available_cols
                                      then loc pivot_df seq (Some ''base'') else None) of
                                  None \<Rightarrow> None
                                | Some y \<Rightarrow> if x < 10 \<and> y < 10 then Some (pct_change_of x y) else None))
                    sequences))
            (filter (\<lambda>c. c \<noteq> ''base'') available_cols)"
    by (rule table_avg_row)
qed

theorem percent_change_formula_witness:
  "\<exists>t. generate_table_html
          \<lparr> p_index = [Some ''seq1'', Some ''seq2''],
            p_columns = [Some ''base'', Some ''daac_rgd_inv''],
            p_cells = [((Some ''seq1'', Some ''base''), Some 1.0),
                       ((Some ''seq1'', Some ''daac_rgd_inv''), Some 0.5),
                       ((Some ''seq2'', Some ''base''), Some 1.0),
                       ((Some ''seq2'', Some ''daac_rgd_inv''), Some 2.0)] \<rparr>
          [Some ''seq1'', Some ''seq2''] ''Baseline vs RGD (Inverse + Metric)''
          [''base'', ''daac_rgd_inv'', ''daac_rgd_metric''] = Some t
     \<and> (\<exists>cell_class. t_rows t ! 0 ! Suc 1 =
           ValueCell cell_class 0.5 (Some (''improvement'', Fin (- 50))))
     \<and> (\<exists>cell_class. t_rows t ! 1 ! Suc 1 =
           ValueCell cell_class 2.0 (Some (''degradation'', Fin 100)))
     \<and> t_avg_row t = [AvgLabel, Dash, AvgCell ''degradation'' (Fin 25)]"
proof -
  let ?pv = "\<lparr> p_index = [Some ''seq1'', Some ''seq2''],
            p_columns = [Some ''base'', Some ''daac_rgd_inv''],
            p_cells = [((Some ''seq1'', Some ''base''), Some (1.0::real)),
                       ((Some ''seq1'', Some ''daac_rgd_inv''), Some 0.5),
                       ((Some ''seq2'', Some ''base''), Some 1.0),
                       ((Some ''seq2'', Some ''daac_rgd_inv''), Some 2.0)] \<rparr>"
  let ?cols = "[''base'', ''daac_rgd_inv'', ''daac_rgd_metric'']"
  let ?av = "[''base'', ''daac_rgd_inv'']"
  let ?seqs = "[Some ''seq1'', Some ''seq2'']"
  obtain t where t: "generate_table_html ?pv ?seqs ''Baseline vs RGD (Inverse + Metric)'' ?cols = Some t"
    by (simp add: generate_table_html_def Let_def case_prod_beta)
  have av: "?av = filter (\<lambda>c. Some c \<in> set (p_columns ?pv)) ?cols" by simp
  have i0: "(0::nat) < length ?seqs" and i1: "(1::nat) < length ?seqs" by simp_all
  have j: "(1::nat) < length ?av" by simp
  have base: "''base'' \<in> set ?av" by simp
  have c: "?av ! 1 \<noteq> ''base''" by simp
  have v0: "loc ?pv (?seqs ! 0) (Some (?av ! 1)) = Some 0.5"
    and v1: "loc ?pv (?seqs ! 1) (Some (?av ! 1)) = Some 2.0"
    and b0: "loc ?pv (?seqs ! 0) (Some ''base'') = Some 1.0"
    and b1: "loc ?pv (?seqs ! 1) (Some ''base'') = Some 1.0"
    by (simp_all add: loc_def)
  have lt: "(0.5::real) < 10" "(2.0::real) < 10" "(1.0::real) < 10" by simp_all
  have d: "distinct ?cols" by simp
  note th0 = percent_change_formula [OF t av i0 j base c v0 lt(1) b0 lt(3)]
  note th1 = percent_change_formula [OF t av i1 j base c v1 lt(2) b1 lt(3)]
  from th0 [THEN conjunct1]
  have r1: "\<exists>cell_class. t_rows t ! 0 ! Suc 1 =
           ValueCell cell_class 0.5 (Some (''improvement'', Fin (- 50)))"
    by (simp add: pct_change_of_def pct_class_of_def)
  from th1 [THEN conjunct1]
  have r2: "\<exists>cell_class. t_rows t ! 1 ! Suc 1 =
           ValueCell cell_class 2.0 (Some (''degradation'', Fin 100))"
    by (simp add: pct_change_of_def pct_class_of_def)
  from th0 d
  have r3: "t_avg_row t = [AvgLabel, Dash, AvgCell ''degradation'' (Fin 25)]"
    by (simp add: loc_def pct_change_of_def pct_class_of_def np_mean_def)
  show ?thesis
    by (rule exI [of _ t]) (intro conjI; fact t r1 r2 r3)
qed

lemma fl_greater_not_less: "fl_greater p 1 \<Longrightarrow> \<not> fl_less p (- 1)"
  by (cases p) simp_all

lemma pct_class_of_iff:
  "(pct_class_of p = ''improvement'' \<longleftrightarrow> fl_less p (- 1))
   \<and> (pct_class_of p = ''degradation'' \<longleftrightarrow> fl_greater p 1)
   \<and> (pct_class_of p = [] \<longleftrightarrow> \<not> fl_less p (- 1) \<and> \<not> fl_greater p 1)"
  using fl_greater_not_less [of p] by (auto simp: pct_class_of_def)

lemma table_base_cell:
  assumes "generate_table_html pivot_df sequences title columns = Some t"
    and "available_cols = filter (\<lambda>c. Some c \<in> set (p_columns pivot_df)) columns"
    and "i < length sequences" and "k < length available_cols"
    and "available_cols ! k = ''base''"
    and "loc pivot_df (sequences ! i) (Some ''base'') = Some b" and "b < 10"
  shows "\<exists>cell_class. t_rows t ! i ! Suc k = ValueCell cell_class b None"
  using assms(5-7)
  by (simp add: table_cell [OF assms(1-4)] fst_cell_html snd_cell_html)

lemma table_avg_class:
  assumes "generate_table_html pivot_df sequences title columns = Some t"
    and "AvgCell cls a \<in> set (t_avg_row t)"
  shows "cls = pct_class_of a"
proof -
  from assms(1) refl have "t_avg_row t = avg_row_html (filter (\<lambda>c. Some c \<in> set (p_columns pivot_df)) columns)
      (snd (rows_loop pivot_df (filter (\<lambda>c. Some c \<in> set (p_columns pivot_df)) columns) sequences (\<lambda>col. [])))"
    by (rule generate_table_html_Some(4))
  with assms(2) have "AvgCell cls a \<in> set (avg_cells (filter (\<lambda>c. Some c \<in> set (p_columns pivot_df)) columns)
      (snd (rows_loop pivot_df (filter (\<lambda>c. Some c \<in> set (p_columns pivot_df)) columns) sequences (\<lambda>col. []))))"
    by (simp add: avg_row_html_def)
  then show ?thesis by (rule avg_cells_class)
qed

text \<open>
  Claim C2, as stated, fails at the boundary. In the table of a pivot with baseline
  6.25, the value 6.1875 has a percent change of exactly \<open>-1\<close> and the value 6.3125
  one of exactly \<open>+1\<close>; both cells, and the cells of the average row, are written with
  the empty (neutral) class, not as improvement or degradation.
\<close>

theorem pct_class_boundary_counterexample:
  "generate_table_html
     \<lparr> p_index = [Some ''seq1''], p_columns = [Some ''base'', Some ''daac_rgd_inv''],
       p_cells = [((Some ''seq1'', Some ''base''), Some 6.25),
                  ((Some ''seq1'', Some ''daac_rgd_inv''), Some 6.1875)] \<rparr>
     [Some ''seq1''] ''Baseline vs RGD (Inverse + Metric)''
     [''base'', ''daac_rgd_inv'', ''daac_rgd_metric'']
   = Some \<lparr> t_title = ''Baseline vs RGD (Inverse + Metric)'',
            t_head = [SeqHead, ColHead ''base'', ColHead ''daac_rgd_inv''],
            t_rows = [[SeqCell (Some ''seq1''), ValueCell [] 6.25 None,
                       ValueCell ''best'' 6.1875 (Some ([], Fin (- 1)))]],
            t_avg_row = [AvgLabel, Dash, AvgCell [] (Fin (- 1))] \<rparr>
   \<and> generate_table_html
     \<lparr> p_index = [Some ''seq1''], p_columns = [Some ''base'', Some ''daac_rgd_inv''],
       p_cells = [((Some ''seq1'', Some ''base''), Some 6.25),
                  ((Some ''seq1'', Some ''daac_rgd_inv''), Some 6.3125)] \<rparr>
     [Some ''seq1''] ''Baseline vs RGD (Inverse + Metric)''
     [''base'', ''daac_rgd_inv'', ''daac_rgd_metric'']
   = Some \<lparr> t_title = ''Baseline vs RGD (Inverse + Metric)'',
            t_head = [SeqHead, ColHead ''base'', ColHead ''daac_rgd_inv''],
            t_rows = [[SeqCell (Some ''seq1''), ValueCell ''best'' 6.25 None,
                       ValueCell [] 6.3125 (Some ([], Fin 1))]],
            t_avg_row = [AvgLabel, Dash, AvgCell [] (Fin 1)] \<rparr>"
  by (simp add: generate_table_html_def row_html_def loc_def valid_values_def min_of_def
      baseline_of_def cell_html_def OUTLIER_THRESHOLD_def pct_change_of_def pct_class_of_def
      avg_row_html_def np_mean_def Let_def)

text \<open>
  Claim C2, amended. In a written table, the cell of a present non-outlier value \<open>v\<close>
  in a row whose baseline \<open>b\<close> is present and not an outlier shows, outside the
  \<^verbatim>\<open>base\<close> column, the percent change of \<open>v\<close> against \<open>b\<close>, and its class is
  improvement if and only if the change is below \<open>-1\<close>, degradation if and only if it
  is above \<open>+1\<close>, and neutral otherwise, so exactly \<open>-1\<close> and \<open>+1\<close> are neutral. The
  comparisons are those of floats: an infinite change is below or above every number,
  \<^verbatim>\<open>nan\<close> is neither. The cell of the \<^verbatim>\<open>base\<close> column shows no change. Every
  cell of the average row is classified by the same strict comparisons, and the row
  averages, per column, exactly the changes of the rows just described.
\<close>

theorem pct_class_strict:
  assumes "generate_table_html pivot_df sequences title columns = Some t"
    and "available_cols = filter (\<lambda>c. Some c \<in> set (p_columns pivot_df)) columns"
    and "i < length sequences" and "j < length available_cols"
    and "''base'' \<in> set available_cols" and "available_cols ! j \<noteq> ''base''"
    and "loc pivot_df (sequences ! i) (Some (available_cols ! j)) = Some v" and "v < 10"
    and "loc pivot_df (sequences ! i) (Some ''base'') = Some b" and "b < 10"
  shows "(\<exists>cell_class pct_class.
            t_rows t ! i ! Suc j = ValueCell cell_class v (Some (pct_class, pct_change_of v b))
            \<and> (pct_class = ''improvement'' \<longleftrightarrow> fl_less (pct_change_of v b) (- 1))
            \<and> (pct_class = ''degradation'' \<longleftrightarrow> fl_greater (pct_change_of v b) 1)
            \<and> (pct_class = [] \<longleftrightarrow>
                  \<not> fl_less (pct_change_of v b) (- 1) \<and> \<not> fl_greater (pct_change_of v b) 1))
    \<and> (b \<noteq> 0 \<longrightarrow> pct_change_of v b = Fin ((v - b) / b * 100))
    \<and> (\<forall>x. (fl_less (Fin x) (- 1) \<longleftrightarrow> x < - 1) \<and> (fl_greater (Fin x) 1 \<longleftrightarrow> 1 < x))
    \<and> fl_less NInf (- 1) \<and> fl_greater PInf 1 \<and> \<not> fl_greater NInf 1 \<and> \<not> fl_less PInf (- 1)
    \<and> \<not> fl_less NaN (- 1) \<and> \<not> fl_greater NaN 1
    \<and> (\<forall>k < length available_cols. available_cols ! k = ''base'' \<longrightarrow>
          (\<exists>cell_class. t_rows t ! i ! Suc k = ValueCell cell_class b None))
    \<and> (\<forall>cls a. AvgCell cls a \<in> set (t_avg_row t) \<longrightarrow>
          (cls = ''improvement'' \<longleftrightarrow> fl_less a (- 1))
          \<and> (cls = ''degradation'' \<longleftrightarrow> fl_greater a 1)
          \<and> (cls = [] \<longleftrightarrow> \<not> fl_less a (- 1) \<and> \<not> fl_greater a 1))
    \<and> (distinct columns \<longrightarrow>
        t_avg_row t =
          AvgLabel # Dash #
          map (\<lambda>col.
                 (\<lambda>changes. if changes = [] then Dash
                            else AvgCell (pct_class_of (np_mean changes)) (np_mean changes))
                 (List.map_filter
                    (\<lambda>seq. case loc pivot_df seq (Some col) of
                             None \<Rightarrow> None
                           | Some x \<Rightarrow>
                               (case (if ''base'' \<in> set available_cols
                                      then loc pivot_df seq (Some ''base'') else None) of
                                  None \<Rightarrow> None
                                | Some y \<Rightarrow> if x < 10 \<and> y < 10 then Some (pct_change_of x y) else None))
                    sequences))
            (filter (\<lambda>c. c \<noteq> ''base'') available_cols))"
proof -
  from assms obtain cell_class where c: "t_rows t ! i ! Suc j =
      ValueCell cell_class v (Some (pct_class_of (pct_change_of v b), pct_change_of v b))"
    using table_cell_annotated by blast
  have 1: "\<exists>cell_class pct_class.
            t_rows t ! i ! Suc j = ValueCell cell_class v (Some (pct_class, pct_change_of v b))
            \<and> (pct_class = ''improvement'' \<longleftrightarrow> fl_less (pct_change_of v b) (- 1))
            \<and> (pct_class = ''degradation'' \<longleftrightarrow> fl_greater (pct_change_of v b) 1)
            \<and> (pct_class = [] \<longleftrightarrow>
                  \<not> fl_less (pct_change_of v b) (- 1) \<and> \<not> fl_greater (pct_change_of v b) 1)"
    using c pct_class_of_iff [of "pct_change_of v b"]
    by (intro exI [of _ cell_class] exI [of _ "pct_class_of (pct_change_of v b)"]) simp
  have 2: "b \<noteq> 0 \<longrightarrow> pct_change_of v b = Fin ((v - b) / b * 100)"
    by (simp add: pct_change_of_def)
  have 3: "\<forall>x. (fl_less (Fin x) (- 1) \<longleftrightarrow> x < - 1) \<and> (fl_greater (Fin x) 1 \<longleftrightarrow> 1 < x)"
    by simp
  have 4: "fl_less NInf (- 1)" "fl_greater PInf 1" "\<not> fl_greater NInf 1" "\<not> fl_less PInf (- 1)"
    "\<not> fl_less NaN (- 1)" "\<not> fl_greater NaN 1"
    by simp_all
  have 5: "\<forall>k < length available_cols. available_cols ! k = ''base'' \<longrightarrow>
          (\<exists>cell_class. t_rows t ! i ! Suc k = ValueCell cell_class b None)"
    using table_base_cell [OF assms(1,2,3) _ _ assms(9,10)] by blast
  have 6: "\<forall>cls a. AvgCell cls a \<in> set (t_avg_row t) \<longrightarrow>
          (cls = ''improvement'' \<longleftrightarrow> fl_less a (- 1))
          \<and> (cls = ''degradation'' \<longleftrightarrow> fl_greater a 1)
          \<and> (cls = [] \<longleftrightarrow> \<not> fl_less a (- 1) \<and> \<not> fl_greater a 1)"
  proof (intro allI impI)
    fix cls a assume "AvgCell cls a \<in> set (t_avg_row t)"
    with assms(1) have "cls = pct_class_of a" by (rule table_avg_class)
    with pct_class_of_iff [of a]
    show "(cls = ''improvement'' \<longleftrightarrow> fl_less a (- 1))
          \<and> (cls = ''degradation'' \<longleftrightarrow> fl_greater a 1)
          \<and> (cls = [] \<longleftrightarrow> \<not> fl_less a (- 1) \<and> \<not> fl_greater a 1)" by simp
  qed
  have 7: "distinct columns \<longrightarrow>
        t_avg_row t =
          AvgLabel # Dash #
          map (\<lambda>col.
                 (\<lambda>changes. if changes = [] then Dash
                            else AvgCell (pct_class_of (np_mean changes)) (np_mean changes))
                 (List.map_filter
                    (\<lambda>seq. case loc pivot_df seq (Some col) of
                             None \<Rightarrow> None
                           | Some x \<Rightarrow>
                               (case (if ''base'' \<in> set available_cols
                                      then loc pivot_df seq (Some ''base'') else None) of
                                  None \<Rightarrow> None
                                | Some y \<Rightarrow> if x < 10 \<and> y < 10 then Some (pct_change_of x y) else None))
                    sequences))
            (filter (\<lambda>c. c \<noteq> ''base'') available_cols)"
  proof
    assume "distinct columns"
    then have "distinct available_cols" unfolding assms(2) by (rule distinct_available)
    with assms(1,2) show "t_avg_row t =
          AvgLabel # Dash #
          map (\<lambda>col.
                 (\<lambda>changes. if changes = [] then Dash
                            else AvgCell (pct_class_of (np_mean changes)) (np_mean changes))
                 (List.map_filter
                    (\<lambda>seq. case loc pivot_df seq (Some col) of
                             None \<Rightarrow> None
                           | Some x \<Rightarrow>
                               (case (if ''base'' \<in> set available_cols
                                      then loc pivot_df seq (Some ''base'') else None) of
                                  None \<Rightarrow> None
                                | Some y \<Rightarrow> if x < 10 \<and> y < 10 then Some (pct_change_of x y) else None))
                    sequences))
            (filter (\<lambda>c. c \<noteq> ''base'') available_cols)"
      by (rule table_avg_row)
  qed
  show ?thesis
    by (intro conjI; fact 1 2 3 4 5 6 7)
qed

theorem pct_class_strict_witness:
  "\<exists>t. generate_table_html
          \<lparr> p_index = [Some ''seq1''], p_columns = [Some ''base'', Some ''daac_rgd_inv''],
            p_cells = [((Some ''seq1'', Some ''base''), Some 0.5),
                       ((Some ''seq1'', Some ''daac_rgd_inv''), Some 0.4)] \<rparr>
          [Some ''seq1''] ''Baseline vs RGD (Inverse + Metric)''
          [''base'', ''daac_rgd_inv'', ''daac_rgd_metric''] = Some t
     \<and> (\<exists>cell_class. t_rows t ! 0 ! Suc 1 =
           ValueCell cell_class 0.4 (Some (''improvement'', Fin (- 20))))
     \<and> (\<exists>cell_class. t_rows t ! 0 ! Suc 0 = ValueCell cell_class 0.5 None)
     \<and> t_avg_row t = [AvgLabel, Dash, AvgCell ''improvement'' (Fin (- 20))]"
proof -
  let ?pv = "\<lparr> p_index = [Some ''seq1''], p_columns = [Some ''base'', Some ''daac_rgd_inv''],
            p_cells = [((Some ''seq1'', Some ''base''), Some (0.5::real)),
                       ((Some ''seq1'', Some ''daac_rgd_inv''), Some 0.4)] \<rparr>"
  let ?cols = "[''base'', ''daac_rgd_inv'', ''daac_rgd_metric'']"
  obtain t where t: "generate_table_html ?pv [Some ''seq1''] ''Baseline vs RGD (Inverse + Metric)'' ?cols = Some t"
    by (simp add: generate_table_html_def Let_def case_prod_beta)
  have av: "[''base'', ''daac_rgd_inv''] = filter (\<lambda>c. Some c \<in> set (p_columns ?pv)) ?cols" by simp
  have i: "(0::nat) < length [Some ''seq1'']" by simp
  have j: "(1::nat) < length [''base'', ''daac_rgd_inv'']" by simp
  have base: "''base'' \<in> set [''base'', ''daac_rgd_inv'']" by simp
  have c: "[''base'', ''daac_rgd_inv''] ! 1 \<noteq> ''base''" by simp
  have v: "loc ?pv ([Some ''seq1''] ! 0) (Some ([''base'', ''daac_rgd_inv''] ! 1)) = Some 0.4"
    and b: "loc ?pv ([Some ''seq1''] ! 0) (Some ''base'') = Some 0.5"
    by (simp_all add: loc_def)
  have lt: "(0.4::real) < 10" "(0.5::real) < 10" by simp_all
  have d: "distinct ?cols" by simp
  note th = pct_class_strict [OF t av i j base c v lt(1) b lt(2)]
  from th [THEN conjunct1]
  have r1: "\<exists>cell_class. t_rows t ! 0 ! Suc 1 =
           ValueCell cell_class 0.4 (Some (''improvement'', Fin (- 20)))"
    by (auto simp: pct_change_of_def)
  from th have "\<forall>k < length [''base'', ''daac_rgd_inv'']. [''base'', ''daac_rgd_inv''] ! k = ''base'' \<longrightarrow>
          (\<exists>cell_class. t_rows t ! 0 ! Suc k = ValueCell cell_class 0.5 None)"
    by (elim conjE)
  then have r2: "\<exists>cell_class. t_rows t ! 0 ! Suc 0 = ValueCell cell_class 0.5 None"
    by simp
  from th d
  have r3: "t_avg_row t = [AvgLabel, Dash, AvgCell ''improvement'' (Fin (- 20))]"
    by (simp add: loc_def pct_change_of_def pct_class_of_def np_mean_def)
  show ?thesis
    by (rule exI [of _ t]) (intro conjI; fact t r1 r2 r3)
qed

lemma table_value_cell:
  assumes "generate_table_html pivot_df sequences title columns = Some t"
    and "available_cols = filter (\<lambda>c. Some c \<in> set (p_columns pivot_df)) columns"
    and "i < length sequences" and "j < length available_cols"
    and "loc pivot_df (sequences ! i) (Some (available_cols ! j)) = Some v" and "v < 10"
  shows "\<exists>cell_class ann m.
       t_rows t ! i ! Suc j = ValueCell cell_class v ann
       \<and> (\<exists>c \<in> set available_cols. loc pivot_df (sequences ! i) (Some c) = Some m) \<and> m < 10
       \<and> (\<forall>c \<in> set available_cols. \<forall>x.
             loc pivot_df (sequences ! i) (Some c) = Some x \<and> x < 10 \<longrightarrow> m \<le> x)
       \<and> (cell_class = ''best'' \<longleftrightarrow> \<bar>v - m\<bar> < 0.0001)
       \<and> (ann \<noteq> None \<longleftrightarrow>
             available_cols ! j \<noteq> ''base'' \<and> ''base'' \<in> set available_cols
             \<and> (\<exists>b. loc pivot_df (sequences ! i) (Some ''base'') = Some b \<and> b < 10))"
proof -
  let ?seq = "sequences ! i" and ?col = "available_cols ! j"
  let ?rv = "map (\<lambda>c. (c, loc pivot_df ?seq (Some c))) available_cols"
  let ?bl = "if ''base'' \<in> set available_cols then loc pivot_df ?seq (Some ''base'') else None"
  have vs: "set (valid_values ?rv) =
      {x. \<exists>c \<in> set available_cols. loc pivot_df ?seq (Some c) = Some x \<and> x < 10}"
    by (rule set_valid_values_row)
  have "?col \<in> set available_cols" using assms(4) by simp
  with assms(5,6) have "v \<in> set (valid_values ?rv)" unfolding vs by blast
  then have "valid_values ?rv \<noteq> []" by auto
  then obtain m where m: "min_of (valid_values ?rv) = Some m"
    using min_of_None [of "valid_values ?rv"] by (cases "min_of (valid_values ?rv)") simp_all
  from min_of_Some [OF m] have mem: "m \<in> set (valid_values ?rv)"
    and le: "\<forall>y \<in> set (valid_values ?rv). m \<le> y" by simp_all
  from mem have m1: "\<exists>c \<in> set available_cols. loc pivot_df ?seq (Some c) = Some m" and m2: "m < 10"
    unfolding vs by blast+
  from le have m3: "\<forall>c \<in> set available_cols. \<forall>x.
             loc pivot_df ?seq (Some c) = Some x \<and> x < 10 \<longrightarrow> m \<le> x"
    unfolding vs by blast
  let ?cls = "if \<bar>v - m\<bar> < 0.0001 then ''best'' else []"
  let ?ann = "case snd (cell_html (Some m) ?bl ?col (Some v)) of
                Some p \<Rightarrow> Some (pct_class_of p, p) | None \<Rightarrow> None"
  have cell: "t_rows t ! i ! Suc j = ValueCell ?cls v ?ann"
    using assms(5,6) by (simp add: table_cell [OF assms(1-4)] m fst_cell_html)
  have c4: "?cls = ''best'' \<longleftrightarrow> \<bar>v - m\<bar> < 0.0001" by simp
  have c5: "?ann \<noteq> None \<longleftrightarrow>
             ?col \<noteq> ''base'' \<and> ''base'' \<in> set available_cols
             \<and> (\<exists>b. loc pivot_df ?seq (Some ''base'') = Some b \<and> b < 10)"
    using assms(6) by (auto simp: snd_cell_html split: option.splits)
  show ?thesis
    by (intro exI [of _ ?cls] exI [of _ ?ann] exI [of _ m] conjI; fact cell m1 m2 m3 c4 c5)
qed

lemma table_outlier_iff:
  assumes "generate_table_html pivot_df sequences title columns = Some t"
    and "available_cols = filter (\<lambda>c. Some c \<in> set (p_columns pivot_df)) columns"
    and "i < length sequences" and "j < length available_cols"
    and "loc pivot_df (sequences ! i) (Some (available_cols ! j)) = Some v"
  shows "t_rows t ! i ! Suc j = OutlierCell \<longleftrightarrow> v \<ge> 10"
  using assms(5) by (simp add: table_cell [OF assms(1-4)] fst_cell_html)

text \<open>
  Claim C5. In a written table, the cell of a present pivoted value \<open>v\<close> is the
  outlier cell if and only if \<open>v \<ge> 10\<close>: exactly 10 is an outlier, 9.9999 is not.
  Below 10 the cell shows \<open>v\<close>; it is marked best exactly when \<open>v\<close> is within
  0.0001 of the least present value below 10 of its row, so outliers take no part in
  the best value; and it shows a percent change exactly when it is outside the
  \<^verbatim>\<open>base\<close> column and the baseline of the row is present and below 10. The average
  row averages, per column, the changes of exactly the rows where value and baseline
  are both present and below 10.
\<close>

theorem outlier_threshold_inclusive:
  assumes "generate_table_html pivot_df sequences title columns = Some t"
    and "available_cols = filter (\<lambda>c. Some c \<in> set (p_columns pivot_df)) columns"
    and "i < length sequences" and "j < length available_cols"
    and "loc pivot_df (sequences ! i) (Some (available_cols ! j)) = Some v"
  shows "OUTLIER_THRESHOLD = 10
    \<and> (t_rows t ! i ! Suc j = OutlierCell \<longleftrightarrow> v \<ge> 10)
    \<and> (v = 10 \<longrightarrow> t_rows t ! i ! Suc j = OutlierCell)
    \<and> (v = 9.9999 \<longrightarrow> t_rows t ! i ! Suc j \<noteq> OutlierCell)
    \<and> (v < 10 \<longrightarrow>
        (\<exists>cell_class ann m.
           t_rows t ! i ! Suc j = ValueCell cell_class v ann
           \<and> (\<exists>c \<in> set available_cols. loc pivot_df (sequences ! i) (Some c) = Some m) \<and> m < 10
           \<and> (\<forall>c \<in> set available_cols. \<forall>x.
                 loc pivot_df (sequences ! i) (Some c) = Some x \<and> x < 10 \<longrightarrow> m \<le> x)
           \<and> (cell_class = ''best'' \<longleftrightarrow> \<bar>v - m\<bar> < 0.0001)
           \<and> (ann \<noteq> None \<longleftrightarrow>
                 available_cols ! j \<noteq> ''base'' \<and> ''base'' \<in> set available_cols
                 \<and> (\<exists>b. loc pivot_df (sequences ! i) (Some ''base'') = Some b \<and> b < 10))))
    \<and> (distinct columns \<longrightarrow>
        t_avg_row t =
          AvgLabel # Dash #
          map (\<lambda>col.
                 (\<lambda>changes. if changes = [] then Dash
                            else AvgCell (pct_class_of (np_mean changes)) (np_mean changes))
                 (List.map_filter
                    (\<lambda>seq. case loc pivot_df seq (Some col) of
                             None \<Rightarrow> None
                           | Some x \<Rightarrow>
                               (case (if ''base'' \<in> set available_cols
                                      then loc pivot_df seq (Some ''base'') else None) of
                                  None \<Rightarrow> None
                                | Some y \<Rightarrow> if x < 10 \<and> y < 10 then Some (pct_change_of x y) else None))
                    sequences))
            (filter (\<lambda>c. c \<noteq> ''base'') available_cols))"
proof -
  note iff = table_outlier_iff [OF assms]
  have 1: "OUTLIER_THRESHOLD = 10" by (simp add: OUTLIER_THRESHOLD_def)
  have 2: "t_rows t ! i ! Suc j = OutlierCell \<longleftrightarrow> v \<ge> 10" by (rule iff)
  have 3: "v = 10 \<longrightarrow> t_rows t ! i ! Suc j = OutlierCell" using iff by simp
  have 4: "v = 9.9999 \<longrightarrow> t_rows t ! i ! Suc j \<noteq> OutlierCell" using iff by simp
  have 5: "v < 10 \<longrightarrow>
        (\<exists>cell_class ann m.
           t_rows t ! i ! Suc j = ValueCell cell_class v ann
           \<and> (\<exists>c \<in> set available_cols. loc pivot_df (sequences ! i) (Some c) = Some m) \<and> m < 10
           \<and> (\<forall>c \<in> set available_cols. \<forall>x.
                 loc pivot_df (sequences ! i) (Some c) = Some x \<and> x < 10 \<longrightarrow> m \<le> x)
           \<and> (cell_class = ''best'' \<longleftrightarrow> \<bar>v - m\<bar> < 0.0001)
           \<and> (ann \<noteq> None \<longleftrightarrow>
                 available_cols ! j \<noteq> ''base'' \<and> ''base'' \<in> set available_cols
                 \<and> (\<exists>b. loc pivot_df (sequences ! i) (Some ''base'') = Some b \<and> b < 10)))"
  proof
    assume "v < 10"
    with assms show "\<exists>cell_class ann m.
           t_rows t ! i ! Suc j = ValueCell cell_class v ann
           \<and> (\<exists>c \<in> set available_cols. loc pivot_df (sequences ! i) (Some c) = Some m) \<and> m < 10
           \<and> (\<forall>c \<in> set available_cols. \<forall>x.
                 loc pivot_df (sequences ! i) (Some c) = Some x \<and> x < 10 \<longrightarrow> m \<le> x)
           \<and> (cell_class = ''best'' \<longleftrightarrow> \<bar>v - m\<bar> < 0.0001)
           \<and> (ann \<noteq> None \<longleftrightarrow>
                 available_cols ! j \<noteq> ''base'' \<and> ''base'' \<in> set available_cols
                 \<and> (\<exists>b. loc pivot_df (sequences ! i) (Some ''base'') = Some b \<and> b < 10))"
      by (rule table_value_cell)
  qed
  have 6: "distinct columns \<longrightarrow>
        t_avg_row t =
          AvgLabel # Dash #
          map (\<lambda>col.
                 (\<lambda>changes. if changes = [] then Dash
                            else AvgCell (pct_class_of (np_mean changes)) (np_mean changes))
                 (List.map_filter
                    (\<lambda>seq. case loc pivot_df seq (Some col) of
                             None \<Rightarrow> None
                           | Some x \<Rightarrow>
                               (case (if ''base'' \<in> set available_cols
                                      then loc pivot_df seq (Some ''base'') else None) of
                                  None \<Rightarrow> None
                                | Some y \<Rightarrow> if x < 10 \<and> y < 10 then Some (pct_change_of x y) else None))
                    sequences))
            (filter (\<lambda>c. c \<noteq> ''base'') available_cols)"
  proof
    assume "distinct columns"
    then have "distinct available_cols" unfolding assms(2) by (rule distinct_available)
    with assms(1,2) show "t_avg_row t =
          AvgLabel # Dash #
          map (\<lambda>col.
                 (\<lambda>changes. if changes = [] then Dash
                            else AvgCell (pct_class_of (np_mean changes)) (np_mean changes))
                 (List.map_filter
                    (\<lambda>seq. case loc pivot_df seq (Some col) of
                             None \<Rightarrow> None
                           | Some x \<Rightarrow>
                               (case (if ''base'' \<in> set available_cols
                                      then loc pivot_df seq (Some ''base'') else None) of
                                  None \<Rightarrow> None
                                | Some y \<Rightarrow> if x < 10 \<and> y < 10 then Some (pct_change_of x y) else None))
                    sequences))
            (filter (\<lambda>c. c \<noteq> ''base'') available_cols)"
      by (rule table_avg_row)
  qed
  show ?thesis
    by (intro conjI; fact 1 2 3 4 5 6)
qed

theorem outlier_threshold_inclusive_witness:
  "\<exists>t. generate_table_html
          \<lparr> p_index = [Some ''seq1'', Some ''seq2''],
            p_columns = [Some ''base'', Some ''daac_rgd_inv'', Some ''daac_rgd_metric''],
            p_cells = [((Some ''seq1'', Some ''base''), Some 0.5),
                       ((Some ''seq1'', Some ''daac_rgd_inv''), Some 10.0),
                       ((Some ''seq1'', Some ''daac_rgd_metric''), Some 9.9999),
                       ((Some ''seq2'', Some ''base''), Some 12.0),
                       ((Some ''seq2'', Some ''daac_rgd_inv''), Some 0.4)] \<rparr>
          [Some ''seq1'', Some ''seq2''] ''Baseline vs RGD (Inverse + Metric)''
          [''base'', ''daac_rgd_inv'', ''daac_rgd_metric''] = Some t
     \<and> t_rows t ! 0 ! Suc 1 = OutlierCell
     \<and> t_rows t ! 0 ! Suc 2 \<noteq> OutlierCell
     \<and> t_rows t ! 1 ! Suc 0 = OutlierCell
     \<and> (\<exists>cell_class. t_rows t ! 1 ! Suc 1 = ValueCell cell_class 0.4 None)
     \<and> t_rows t ! 0 ! Suc 0 = ValueCell ''best'' 0.5 None
     \<and> t_avg_row t = [AvgLabel, Dash, Dash, AvgCell ''degradation'' (Fin 1899.98)]"
proof -
  let ?pv = "\<lparr> p_index = [Some ''seq1'', Some ''seq2''],
            p_columns = [Some ''base'', Some ''daac_rgd_inv'', Some ''daac_rgd_metric''],
            p_cells = [((Some ''seq1'', Some ''base''), Some (0.5::real)),
                       ((Some ''seq1'', Some ''daac_rgd_inv''), Some 10.0),
                       ((Some ''seq1'', Some ''daac_rgd_metric''), Some 9.9999),
                       ((Some ''seq2'', Some ''base''), Some 12.0),
                       ((Some ''seq2'', Some ''daac_rgd_inv''), Some 0.4)] \<rparr>"
  let ?cols = "[''base'', ''daac_rgd_inv'', ''daac_rgd_metric'']"
  let ?seqs = "[Some ''seq1'', Some ''seq2'']"
  obtain t where t: "generate_table_html ?pv ?seqs ''Baseline vs RGD (Inverse + Metric)'' ?cols = Some t"
    by (simp add: generate_table_html_def Let_def case_prod_beta)
  have av: "?cols = filter (\<lambda>c. Some c \<in> set (p_columns ?pv)) ?cols" by simp
  have i0: "(0::nat) < length ?seqs" and i1: "(1::nat) < length ?seqs" by simp_all
  have j0: "(0::nat) < length ?cols" and j1: "(1::nat) < length ?cols" and j2: "(2::nat) < length ?cols"
    by simp_all
  have v01: "loc ?pv (?seqs ! 0) (Some (?cols ! 1)) = Some 10"
    and v02: "loc ?pv (?seqs ! 0) (Some (?cols ! 2)) = Some 9.9999"
    and v00: "loc ?pv (?seqs ! 0) (Some (?cols ! 0)) = Some 0.5"
    and v10: "loc ?pv (?seqs ! 1) (Some (?cols ! 0)) = Some 12"
    and v11: "loc ?pv (?seqs ! 1) (Some (?cols ! 1)) = Some 0.4"
    by (simp_all add: loc_def)
  have d: "distinct ?cols" by simp
  have lt: "(0.4::real) < 10" "(0.5::real) < 10" by simp_all
  note th01 = outlier_threshold_inclusive [OF t av i0 j1 v01]
  note th02 = outlier_threshold_inclusive [OF t av i0 j2 v02]
  note th00 = outlier_threshold_inclusive [OF t av i0 j0 v00]
  note th10 = outlier_threshold_inclusive [OF t av i1 j0 v10]
  note th11 = outlier_threshold_inclusive [OF t av i1 j1 v11]
  from th01 [THEN conjunct2, THEN conjunct1]
  have r1: "t_rows t ! 0 ! Suc 1 = OutlierCell" by simp
  from th02 [THEN conjunct2, THEN conjunct1]
  have r2: "t_rows t ! 0 ! Suc 2 \<noteq> OutlierCell" by simp
  from th10 [THEN conjunct2, THEN conjunct1]
  have r3: "t_rows t ! 1 ! Suc 0 = OutlierCell" by simp
  from th11 [THEN conjunct2, THEN conjunct2, THEN conjunct2, THEN conjunct2, THEN conjunct1, THEN mp, OF lt(1)]
  obtain cell_class ann where c: "t_rows t ! 1 ! Suc 1 = ValueCell cell_class 0.4 ann"
    and a: "ann \<noteq> None \<longleftrightarrow>
                 ?cols ! 1 \<noteq> ''base'' \<and> ''base'' \<in> set ?cols
                 \<and> (\<exists>b. loc ?pv (?seqs ! 1) (Some ''base'') = Some b \<and> b < 10)"
    by (elim exE conjE) (rule that; assumption)
  from a have "ann = None" by (cases ann) (simp_all add: loc_def)
  with c have r4: "\<exists>cell_class. t_rows t ! 1 ! Suc 1 = ValueCell cell_class 0.4 None" by simp
  have r5: "t_rows t ! 0 ! Suc 0 = ValueCell ''best'' 0.5 None"
  proof -
    from th00 [THEN conjunct2, THEN conjunct2, THEN conjunct2, THEN conjunct2, THEN conjunct1, THEN mp, OF lt(2)]
    obtain cell_class ann m where c: "t_rows t ! 0 ! Suc 0 = ValueCell cell_class 0.5 ann"
      and m1: "\<exists>c \<in> set ?cols. loc ?pv (?seqs ! 0) (Some c) = Some m"
      and m3: "\<forall>c \<in> set ?cols. \<forall>x. loc ?pv (?seqs ! 0) (Some c) = Some x \<and> x < 10 \<longrightarrow> m \<le> x"
      and b: "cell_class = ''best'' \<longleftrightarrow> \<bar>0.5 - m\<bar> < 0.0001"
      and a: "ann \<noteq> None \<longleftrightarrow>
                 ?cols ! 0 \<noteq> ''base'' \<and> ''base'' \<in> set ?cols
                 \<and> (\<exists>b. loc ?pv (?seqs ! 0) (Some ''base'') = Some b \<and> b < 10)"
      by (elim exE conjE) (rule that; assumption)
    from a have an: "ann = None" by (cases ann) simp_all
    have "''base'' \<in> set ?cols" by simp
    with m3 have "\<forall>x. loc ?pv (?seqs ! 0) (Some ''base'') = Some x \<and> x < 10 \<longrightarrow> m \<le> x"
      by (rule bspec)
    then have "loc ?pv (?seqs ! 0) (Some ''base'') = Some 0.5 \<and> (0.5::real) < 10 \<longrightarrow> m \<le> 0.5"
      by (rule spec)
    moreover have "loc ?pv (?seqs ! 0) (Some ''base'') = Some 0.5" by (simp add: loc_def)
    ultimately have "m \<le> 0.5" by simp
    moreover from m1 have "m = 0.5 \<or> m = 10 \<or> m = 9.9999" by (auto simp: loc_def)
    ultimately have "m = 0.5" by auto
    with b have "cell_class = ''best''" by simp
    with c an show ?thesis by simp
  qed
  from th00 [THEN conjunct2, THEN conjunct2, THEN conjunct2, THEN conjunct2, THEN conjunct2, THEN mp, OF d]
  have r6: "t_avg_row t = [AvgLabel, Dash, Dash, AvgCell ''degradation'' (Fin 1899.98)]"
    by (simp add: loc_def pct_change_of_def pct_class_of_def np_mean_def)
  show ?thesis
    by (rule exI [of _ t]) (intro conjI; fact t r1 r2 r3 r4 r5 r6)
qed

section \<open>Properties of the table layout\<close>

lemma length_filter_other:
  "distinct xs \<Longrightarrow> x \<in> set xs \<Longrightarrow> Suc (length (filter (\<lambda>c. c \<noteq> x) xs)) = length xs"
proof (induction xs)
  case Nil
  then show ?case by simp
next
  case (Cons a xs)
  show ?case
  proof (cases "a = x")
    case True
    with Cons.prems have "x \<notin> set xs" by simp
    then have "filter (\<lambda>c. c \<noteq> x) xs = xs" by (induction xs) auto
    with True show ?thesis by simp
  next
    case False
    with Cons show ?thesis by simp
  qed
qed

lemma length_filter_absent:
  "x \<notin> set xs \<Longrightarrow> length (filter (\<lambda>c. c \<noteq> x) xs) = length xs"
  by (induction xs) auto

lemma tables_config_distinct:
  "\<forall>config \<in> set tables_config. distinct (cfg_columns config) \<and> ''base'' \<in> set (cfg_columns config)"
  by (simp add: tables_config_def)

text \<open>
  Claim C10. When a table is written, the header and every data row have one cell
  more than there are resolved columns. The average row starts with the label and an
  unconditional dash and has one further cell per resolved column other than
  \<^verbatim>\<open>base\<close>: without \<^verbatim>\<open>base\<close> among the resolved columns it has two cells more
  than there are resolved columns, one more than every other row; with \<^verbatim>\<open>base\<close>
  among them (the requested columns being distinct, as they are in every configured
  group) the counts agree.
\<close>

theorem summary_row_cell_count:
  assumes "generate_table_html pivot_df sequences title columns = Some t"
    and "available_cols = filter (\<lambda>c. Some c \<in> set (p_columns pivot_df)) columns"
  shows "available_cols \<noteq> []
    \<and> length (t_head t) = 1 + length available_cols
    \<and> length (t_rows t) = length sequences
    \<and> (\<forall>row \<in> set (t_rows t). length row = 1 + length available_cols)
    \<and> take 2 (t_avg_row t) = [AvgLabel, Dash]
    \<and> (''base'' \<notin> set available_cols \<longrightarrow> length (t_avg_row t) = 2 + length available_cols)
    \<and> (''base'' \<in> set available_cols \<and> distinct columns \<longrightarrow>
          length (t_avg_row t) = 1 + length available_cols)
    \<and> (\<forall>config \<in> set tables_config. distinct (cfg_columns config))"
proof -
  let ?rl = "rows_loop pivot_df available_cols sequences (\<lambda>col. [])"
  from assms have ne: "available_cols \<noteq> []"
    by (auto simp: generate_table_html_def Let_def split: if_splits)
  with assms have t: "t = \<lparr> t_title = title, t_head = SeqHead # map ColHead available_cols,
        t_rows = fst ?rl, t_avg_row = avg_row_html available_cols (snd ?rl) \<rparr>"
    by (simp add: generate_table_html_def Let_def case_prod_beta)
  have h: "length (t_head t) = 1 + length available_cols" by (simp add: t)
  have r: "length (t_rows t) = length sequences
      \<and> (\<forall>row \<in> set (t_rows t). length row = 1 + length available_cols)"
    using rows_loop_lengths [of pivot_df available_cols sequences "\<lambda>col. []"] by (simp add: t)
  have a: "length (t_avg_row t) = 2 + length (filter (\<lambda>c. c \<noteq> ''base'') available_cols)"
    by (simp add: t avg_row_html_def length_avg_cells)
  have a0: "take 2 (t_avg_row t) = [AvgLabel, Dash]"
    by (simp add: t avg_row_html_def)
  have a1: "''base'' \<notin> set available_cols \<longrightarrow> length (t_avg_row t) = 2 + length available_cols"
    using a by (simp add: length_filter_absent)
  have a2: "''base'' \<in> set available_cols \<and> distinct columns \<longrightarrow>
          length (t_avg_row t) = 1 + length available_cols"
  proof
    assume b: "''base'' \<in> set available_cols \<and> distinct columns"
    then have "distinct available_cols" by (simp add: assms(2))
    moreover from b have "''base'' \<in> set available_cols" by (rule conjunct1)
    ultimately have "Suc (length (filter (\<lambda>c. c \<noteq> ''base'') available_cols)) = length available_cols"
      by (rule length_filter_other)
    with a show "length (t_avg_row t) = 1 + length available_cols" by simp
  qed
  have c: "\<forall>config \<in> set tables_config. distinct (cfg_columns config)"
    using tables_config_distinct by blast
  from r have r1: "length (t_rows t) = length sequences"
    and r2: "\<forall>row \<in> set (t_rows t). length row = 1 + length available_cols"
    by (rule conjunct1, rule conjunct2)
  from ne h r1 r2 a0 a1 a2 c show ?thesis by (intro conjI) assumption+
qed

theorem summary_row_cell_count_witness:
  "\<exists>t1 t2.
     generate_table_html
       \<lparr> p_index = [Some ''seq1''], p_columns = [Some ''daac_rgd_inv''],
         p_cells = [((Some ''seq1'', Some ''daac_rgd_inv''), Some 0.4)] \<rparr>
       [Some ''seq1''] ''Baseline vs RGD'' [''base'', ''daac_rgd_inv'', ''daac_rgd_metric''] = Some t1
     \<and> ''base'' \<notin> set [''daac_rgd_inv'']
     \<and> length (t_head t1) = 2 \<and> length (t_avg_row t1) = 3
     \<and> generate_table_html
       \<lparr> p_index = [Some ''seq1''], p_columns = [Some ''base'', Some ''daac_rgd_inv''],
         p_cells = [((Some ''seq1'', Some ''base''), Some 0.5), ((Some ''seq1'', Some ''daac_rgd_inv''), Some 0.4)] \<rparr>
       [Some ''seq1''] ''Baseline vs RGD'' [''base'', ''daac_rgd_inv'', ''daac_rgd_metric''] = Some t2
     \<and> ''base'' \<in> set [''base'', ''daac_rgd_inv''] \<and> distinct [''base'', ''daac_rgd_inv'', ''daac_rgd_metric'']
     \<and> length (t_head t2) = 3 \<and> length (t_avg_row t2) = 3"
proof -
  let ?pv1 = "\<lparr> p_index = [Some ''seq1''], p_columns = [Some ''daac_rgd_inv''],
         p_cells = [((Some ''seq1'', Some ''daac_rgd_inv''), Some (0.4::real))] \<rparr>"
  let ?pv2 = "\<lparr> p_index = [Some ''seq1''], p_columns = [Some ''base'', Some ''daac_rgd_inv''],
         p_cells = [((Some ''seq1'', Some ''base''), Some (0.5::real)), ((Some ''seq1'', Some ''daac_rgd_inv''), Some 0.4)] \<rparr>"
  let ?cols = "[''base'', ''daac_rgd_inv'', ''daac_rgd_metric'']"
  have av1: "[''daac_rgd_inv''] = filter (\<lambda>c. Some c \<in> set (p_columns ?pv1)) ?cols" by simp
  have av2: "[''base'', ''daac_rgd_inv''] = filter (\<lambda>c. Some c \<in> set (p_columns ?pv2)) ?cols" by simp
  obtain t1 where t1: "generate_table_html ?pv1 [Some ''seq1''] ''Baseline vs RGD'' ?cols = Some t1"
    by (simp add: generate_table_html_def Let_def case_prod_beta)
  obtain t2 where t2: "generate_table_html ?pv2 [Some ''seq1''] ''Baseline vs RGD'' ?cols = Some t2"
    by (simp add: generate_table_html_def Let_def case_prod_beta)
  have b1: "''base'' \<notin> set [''daac_rgd_inv'']" by simp
  have b2: "''base'' \<in> set [''base'', ''daac_rgd_inv''] \<and> distinct ?cols" by simp
  from b2 have b3: "''base'' \<in> set [''base'', ''daac_rgd_inv'']" and b4: "distinct ?cols"
    by (rule conjunct1, rule conjunct2)
  note th1 = summary_row_cell_count [OF t1 av1]
  note th2 = summary_row_cell_count [OF t2 av2]
  from th1 have h1: "length (t_head t1) = 2" by simp
  from th1 b1 have a1: "length (t_avg_row t1) = 3" by simp
  from th2 have h2: "length (t_head t2) = 3" by simp
  from th2 b2 have a2: "length (t_avg_row t2) = 3" by simp
  from t1 b1 h1 a1 t2 b3 b4 h2 a2 show ?thesis by (intro exI conjI) assumption+
qed

section \<open>Properties of the report as a whole\<close>

lemma generate_table_html_None_iff:
  "generate_table_html pivot_df sequences title columns = None
   \<longleftrightarrow> filter (\<lambda>c. Some c \<in> set (p_columns pivot_df)) columns = []"
  by (simp add: generate_table_html_def Let_def case_prod_beta)

lemma tables_list_generate_step:
  "tables_list (generate_step pivot_df sequences st config) =
     tables_list st @ [(cfg_title config, cfg_filename config, cfg_description config)]"
  by (simp add: generate_step_def Let_def split: option.splits)

lemma written_generate_step:
  "map fst (written (generate_step pivot_df sequences st config)) =
     map fst (written st) @
     (if filter (\<lambda>c. Some c \<in> set (p_columns pivot_df)) (cfg_columns config) = [] then []
      else [cfg_filename config])"
proof (cases "generate_table_html pivot_df sequences (cfg_title config) (cfg_columns config)")
  case None
  then show ?thesis
    using generate_table_html_None_iff [of pivot_df sequences "cfg_title config" "cfg_columns config"]
    by (simp add: generate_step_def Let_def)
next
  case (Some t)
  then show ?thesis
    using generate_table_html_None_iff [of pivot_df sequences "cfg_title config" "cfg_columns config"]
    by (simp add: generate_step_def Let_def)
qed

lemma foldl_generate_step:
  "tables_list (foldl (generate_step pivot_df sequences) st configs) =
     tables_list st @ map (\<lambda>c. (cfg_title c, cfg_filename c, cfg_description c)) configs
   \<and> map fst (written (foldl (generate_step pivot_df sequences) st configs)) =
     map fst (written st) @
     map cfg_filename
       (filter (\<lambda>c. filter (\<lambda>x. Some x \<in> set (p_columns pivot_df)) (cfg_columns c) \<noteq> []) configs)"
proof (induction configs arbitrary: st)
  case Nil
  show ?case by simp
next
  case (Cons c configs)
  show ?case
    using Cons.IH [of "generate_step pivot_df sequences st c"]
    by (simp add: tables_list_generate_step written_generate_step)
qed

lemma generate_tables_lists:
  "tables_list (generate_tables pivot_df sequences configs) =
     map (\<lambda>c. (cfg_title c, cfg_filename c, cfg_description c)) configs
   \<and> map fst (written (generate_tables pivot_df sequences configs)) =
     map cfg_filename
       (filter (\<lambda>c. filter (\<lambda>x. Some x \<in> set (p_columns pivot_df)) (cfg_columns c) \<noteq> []) configs)"
  using foldl_generate_step [of pivot_df sequences "\<lparr> written = [], tables_list = [] \<rparr>" configs]
  by (simp add: generate_tables_def)

lemma parse_all_rgd:
  "parse_all [\<lparr> r_name = ''spot_seq1_daac_rgd_inv'', r_rmse_median = Some 3 \<rparr>]
     = Inr [(Some ''spot_seq1'', Some ''daac_rgd_inv'', Some 3)]"
  by (simp add: parse_all_def parse_name_def variant_markers_def endswith_def)

lemma pivot_rgd:
  "pivot [(Some ''spot_seq1'', Some ''daac_rgd_inv'', Some 3)]
     = Inr \<lparr> p_index = [Some ''spot_seq1''], p_columns = [Some ''daac_rgd_inv''],
             p_cells = [((Some ''spot_seq1'', Some ''daac_rgd_inv''), Some 3)] \<rparr>"
  by (simp add: pivot_def present_labels_def List.map_filter_simps)

lemma py_sorted_single: "py_sorted [Some s] = Inr [Some s]"
  by (simp add: py_sorted_def List.map_filter_simps)

text \<open>
  Claim C3, evaluated on the code. The CSV holds the single experiment
  \<^verbatim>\<open>spot_seq1_daac_rgd_inv\<close>. The group \<^verbatim>\<open>Baseline vs Depth Optimization\<close> has no
  resolved column: \<^verbatim>\<open>generate_table_html\<close> returns early and only the files of the
  two groups with the column \<^verbatim>\<open>daac_rgd_inv\<close> are written. The loop appends every
  group to \<^verbatim>\<open>tables_list\<close> after the call, so the index lists all five groups,
  the three skipped ones included.
\<close>

theorem index_lists_skipped_groups:
  "reporter_main [\<lparr> r_name = ''spot_seq1_daac_rgd_inv'', r_rmse_median = Some 3 \<rparr>] =
     Inr (generate_tables
            \<lparr> p_index = [Some ''spot_seq1''], p_columns = [Some ''daac_rgd_inv''],
              p_cells = [((Some ''spot_seq1'', Some ''daac_rgd_inv''), Some 3)] \<rparr>
            [Some ''spot_seq1''] tables_config)
   \<and> generate_table_html
         \<lparr> p_index = [Some ''spot_seq1''], p_columns = [Some ''daac_rgd_inv''],
           p_cells = [((Some ''spot_seq1'', Some ''daac_rgd_inv''), Some 3)] \<rparr>
         [Some ''spot_seq1''] ''Baseline vs Depth Optimization (and Log Opt)''
         [''base'', ''daac_depth_opt_w100'', ''daac_depth_opt_w500'', ''daac_depth_opt_w1000'',
          ''daac_depth_opt_log_w100''] = None
   \<and> map fst (written (generate_tables
            \<lparr> p_index = [Some ''spot_seq1''], p_columns = [Some ''daac_rgd_inv''],
              p_cells = [((Some ''spot_seq1'', Some ''daac_rgd_inv''), Some 3)] \<rparr>
            [Some ''spot_seq1''] tables_config))
       = [''baseline_vs_rgd.html'', ''baseline_vs_all.html'']
   \<and> map (fst \<circ> snd) (tables_list (generate_tables
            \<lparr> p_index = [Some ''spot_seq1''], p_columns = [Some ''daac_rgd_inv''],
              p_cells = [((Some ''spot_seq1'', Some ''daac_rgd_inv''), Some 3)] \<rparr>
            [Some ''spot_seq1''] tables_config))
       = [''baseline_vs_depth_opt.html'', ''baseline_vs_rgd.html'', ''baseline_vs_mahal.html'',
          ''depth_opt_vs_mahal.html'', ''baseline_vs_all.html'']"
proof (intro conjI)
  let ?pv = "\<lparr> p_index = [Some ''spot_seq1''], p_columns = [Some ''daac_rgd_inv''],
              p_cells = [((Some ''spot_seq1'', Some ''daac_rgd_inv''), Some (3::real))] \<rparr>"
  show "reporter_main [\<lparr> r_name = ''spot_seq1_daac_rgd_inv'', r_rmse_median = Some 3 \<rparr>] =
     Inr (generate_tables ?pv [Some ''spot_seq1''] tables_config)"
    by (simp add: reporter_main_def parse_all_rgd pivot_rgd py_sorted_single)
  show "generate_table_html ?pv [Some ''spot_seq1''] ''Baseline vs Depth Optimization (and Log Opt)''
         [''base'', ''daac_depth_opt_w100'', ''daac_depth_opt_w500'', ''daac_depth_opt_w1000'',
          ''daac_depth_opt_log_w100''] = None"
    by (simp add: generate_table_html_None_iff)
  show "map fst (written (generate_tables ?pv [Some ''spot_seq1''] tables_config))
       = [''baseline_vs_rgd.html'', ''baseline_vs_all.html'']"
    by (simp add: generate_tables_lists tables_config_def)
  show "map (fst \<circ> snd) (tables_list (generate_tables ?pv [Some ''spot_seq1''] tables_config))
       = [''baseline_vs_depth_opt.html'', ''baseline_vs_rgd.html'', ''baseline_vs_mahal.html'',
          ''depth_opt_vs_mahal.html'', ''baseline_vs_all.html'']"
    by (simp add: generate_tables_lists tables_config_def)
qed

lemma parse_name_newvariant: "parse_name ''spot_seq1_newvariant'' = (None, None)"
  by (simp add: parse_name_def variant_markers_def endswith_def)

lemma parse_name_experiment: "parse_name ''spot_seq2_experiment'' = (None, None)"
  by (simp add: parse_name_def variant_markers_def endswith_def)

lemma parse_name_seq1_base: "parse_name ''spot_seq1_base'' = (Some ''spot_seq1'', Some ''base'')"
  by (simp add: parse_name_def variant_markers_def endswith_def)

text \<open>
  Claim C4, evaluated on the code. The name \<^verbatim>\<open>spot_seq1_newvariant\<close> ends in no
  known suffix and is parsed to \<open>(None, None)\<close>. The row is not dropped before the
  pivot: it becomes a row and a column with the null label. With a mapped experiment
  beside it, sorting the row labels raises \<^verbatim>\<open>TypeError\<close>; two unmapped names give a
  duplicate pair of null keys and the pivot raises \<^verbatim>\<open>ValueError\<close>.
\<close>

theorem unmapped_name_breaks_report:
  "parse_name ''spot_seq1_newvariant'' = (None, None)
   \<and> pivot [(Some ''spot_seq1'', Some ''base'', Some 2), (None, None, Some 3)] =
       Inr \<lparr> p_index = [None, Some ''spot_seq1''], p_columns = [None, Some ''base''],
               p_cells = [((Some ''spot_seq1'', Some ''base''), Some 2), ((None, None), Some 3)] \<rparr>
   \<and> reporter_main [\<lparr> r_name = ''spot_seq1_base'', r_rmse_median = Some 2 \<rparr>,
                     \<lparr> r_name = ''spot_seq1_newvariant'', r_rmse_median = Some 3 \<rparr>] = Inl TypeError
   \<and> reporter_main [\<lparr> r_name = ''spot_seq1_newvariant'', r_rmse_median = Some 2 \<rparr>,
                     \<lparr> r_name = ''spot_seq2_experiment'', r_rmse_median = Some 3 \<rparr>] = Inl ValueError"
proof (intro conjI)
  show "parse_name ''spot_seq1_newvariant'' = (None, None)"
    by (rule parse_name_newvariant)
  show p: "pivot [(Some ''spot_seq1'', Some ''base'', Some 2), (None, None, Some 3)] =
       Inr \<lparr> p_index = [None, Some ''spot_seq1''], p_columns = [None, Some ''base''],
               p_cells = [((Some ''spot_seq1'', Some ''base''), Some 2), ((None, None), Some 3)] \<rparr>"
    by (simp add: pivot_def present_labels_def List.map_filter_simps)
  have s: "py_sorted [None, Some ''spot_seq1''] = Inl TypeError"
    by (simp add: py_sorted_def)
  show "reporter_main [\<lparr> r_name = ''spot_seq1_base'', r_rmse_median = Some 2 \<rparr>,
                     \<lparr> r_name = ''spot_seq1_newvariant'', r_rmse_median = Some 3 \<rparr>] = Inl TypeError"
    by (simp add: reporter_main_def parse_all_def parse_name_newvariant parse_name_seq1_base p s)
  have d: "pivot [(None, None, Some 2), (None, None, Some 3)] = Inl ValueError"
    by (simp add: pivot_def)
  show "reporter_main [\<lparr> r_name = ''spot_seq1_newvariant'', r_rmse_median = Some 2 \<rparr>,
                     \<lparr> r_name = ''spot_seq2_experiment'', r_rmse_median = Some 3 \<rparr>] = Inl ValueError"
    by (simp add: reporter_main_def parse_all_def parse_name_newvariant parse_name_experiment d)
qed

section \<open>Properties of the summary rows\<close>

lemma np_mean_Fin: "xs \<noteq> [] \<Longrightarrow> np_mean (map Fin xs) = Fin (sum_list xs / real (length xs))"
proof -
  have "foldl fl_add (Fin a) (map Fin xs) = Fin (a + sum_list xs)" for a
    by (induction xs arbitrary: a) (simp_all add: add.assoc)
  from this [of 0] show "xs \<noteq> [] \<Longrightarrow> ?thesis"
    by (simp add: np_mean_def)
qed

lemma np_mean_one: "np_mean [Fin a] = Fin a"
  by (simp add: np_mean_def)

lemma np_mean_two: "np_mean [Fin a, Fin b] = Fin ((a + b) / 2)"
  by (simp add: np_mean_def)

lemma np_median_standard:
  assumes "xs \<noteq> []"
  shows "np_median xs = Fin (standard_median xs)"
proof -
  let ?s = "sort xs" and ?n = "length xs"
  have n: "0 < ?n" using assms by simp
  have len: "length ?s = ?n" by simp
  show ?thesis
  proof (cases "?n mod 2 = 1")
    case True
    have "?n div 2 < length ?s" using n by simp
    then have "take 1 (drop (?n div 2) ?s) = [?s ! (?n div 2)]"
      by (simp add: take_Suc_conv_app_nth drop_take [symmetric] Cons_nth_drop_Suc [symmetric])
    with True assms show ?thesis
      by (simp add: np_median_def standard_median_def Let_def np_mean_one odd_iff_mod_2_eq_one)
  next
    case False
    then have ev: "even ?n" by presburger
    from ev n have h: "0 < ?n div 2" by presburger
    have k: "?n div 2 - 1 < length ?s" "Suc (?n div 2 - 1) = ?n div 2" "?n div 2 < length ?s"
      using h n by simp_all
    have "drop (?n div 2 - 1) ?s = ?s ! (?n div 2 - 1) # drop (?n div 2) ?s"
      using Cons_nth_drop_Suc [OF k(1)] k(2) by simp
    also have "drop (?n div 2) ?s = ?s ! (?n div 2) # drop (Suc (?n div 2)) ?s"
      using Cons_nth_drop_Suc [OF k(3)] by simp
    finally have "take 2 (drop (?n div 2 - 1) ?s) = [?s ! (?n div 2 - 1), ?s ! (?n div 2)]"
      by (simp add: numeral_2_eq_2)
    with False ev assms show ?thesis
      by (simp add: np_median_def standard_median_def Let_def np_mean_two)
  qed
qed

lemma parse_results_file_nonempty:
  "parse_results_file file = Inr (Some rmse_values) \<Longrightarrow> rmse_values \<noteq> []"
  by (auto simp: parse_results_file_def split: option.splits sum.splits if_splits)

lemma make_row_nonempty:
  "make_row dirname (v # vs) =
     Inr ([(''name'', CStr dirname),
           (''num_runs'', CInt (length (v # vs))),
           (''rmse_mean'', CFloat (np_mean (map Fin (v # vs)))),
           (''rmse_median'', CFloat (np_median (v # vs))),
           (''rmse_min'', CFloat (Fin (fold min vs v))),
           (''rmse_max'', CFloat (Fin (fold max vs v))),
           (''rmse_last'', CFloat (Fin (last (v # vs))))]
          @ map (\<lambda>(i, val). (''run_'' @ str_nat i, CFloat (Fin val))) (enumerate 1 (v # vs)))"
  by (simp add: make_row_def np_min_def np_max_def py_last_def)

lemma run_entries:
  "map (\<lambda>(i, val). (''run_'' @ str_nat i, CFloat (Fin val))) (enumerate 1 xs) =
   map (\<lambda>i. (''run_'' @ str_nat (Suc i), CFloat (Fin (xs ! i)))) [0..<length xs]"
  by (rule nth_equalityI) (simp_all add: nth_enumerate_eq)

lemma filter_run_entries:
  "filter (\<lambda>(k, v). startswith k ''run_'') (map (\<lambda>i. (''run_'' @ f i, g i)) js) =
   map (\<lambda>i. (''run_'' @ f i, g i)) js"
  by (induction js) (simp_all add: startswith_def)

lemma scan_loop_single:
  "parse_results_file file = Inr (Some (v # vs)) \<Longrightarrow> make_row dirname (v # vs) = Inr r \<Longrightarrow>
   scan_loop [(dirname, file)] = Inr [r]"
  by simp

lemma scan_loop_Cons:
  "scan_loop ((d, f) # dirs) =
     (case scan_loop [(d, f)] of
        Inl e \<Rightarrow> Inl e
      | Inr here \<Rightarrow> (case scan_loop dirs of Inl e \<Rightarrow> Inl e | Inr rest \<Rightarrow> Inr (here @ rest)))"
proof (cases "parse_results_file f")
  case (Inl e)
  then show ?thesis by simp
next
  case p: (Inr rv)
  show ?thesis
  proof (cases rv)
    case None
    with p show ?thesis by (simp split: sum.splits)
  next
    case (Some vals)
    show ?thesis
    proof (cases vals)
      case Nil
      with p Some show ?thesis by (simp split: sum.splits)
    next
      case (Cons v vs)
      show ?thesis
      proof (cases "make_row d (v # vs)")
        case (Inl e)
        with p Some Cons show ?thesis by simp
      next
        case (Inr r)
        with p Some Cons show ?thesis by (simp split: sum.splits)
      qed
    qed
  qed
qed

lemma scan_loop_member:
  "scan_loop dirs = Inr results \<Longrightarrow> (d, f) \<in> set dirs \<Longrightarrow> scan_loop [(d, f)] = Inr [r] \<Longrightarrow>
   r \<in> set results"
proof (induction dirs arbitrary: results)
  case Nil
  then show ?case by simp
next
  case (Cons a dirs)
  obtain d' f' where a: "a = (d', f')" by (cases a)
  from Cons.prems(1) have c: "(case scan_loop [(d', f')] of
        Inl e \<Rightarrow> Inl e
      | Inr here \<Rightarrow> (case scan_loop dirs of Inl e \<Rightarrow> Inl e | Inr rest \<Rightarrow> Inr (here @ rest))) = Inr results"
    unfolding a scan_loop_Cons [of d' f' dirs] .
  then obtain here where here: "scan_loop [(d', f')] = Inr here"
    by (cases "scan_loop [(d', f')]") simp_all
  with c obtain rest where rest: "scan_loop dirs = Inr rest" and res: "results = here @ rest"
    by (cases "scan_loop dirs") simp_all
  show ?case
  proof (cases "(d, f) = (d', f')")
    case True
    with here Cons.prems(3) have "here = [r]" by simp
    with res show ?thesis by simp
  next
    case False
    with Cons.prems(2) a have mem: "(d, f) \<in> set dirs" by auto
    from rest mem Cons.prems(3) have "r \<in> set rest" by (rule Cons.IH)
    with res show ?thesis by simp
  qed
qed

lemma scan_results_member:
  assumes "scan_results base_dir = Inr results" and "(d, f) \<in> set base_dir"
    and "startswith d ''spot_''" and "scan_loop [(d, f)] = Inr [r]"
  shows "r \<in> set results"
proof -
  let ?dirs = "sort_key fst (filter (\<lambda>(dirname, file). startswith dirname ''spot_'') base_dir)"
  have "scan_loop ?dirs = Inr results" using assms(1) by (simp add: scan_results_def)
  moreover have "(d, f) \<in> set ?dirs" using assms(2,3) by simp
  ultimately show ?thesis using assms(4) by (rule scan_loop_member)
qed

text \<open>
  Claim C7. When the result file of an experiment yields the observations
  \<open>rmse_values\<close>, there are \<open>N \<ge> 1\<close> of them and the experiment gets one row, in
  which \<^verbatim>\<open>num_runs\<close> is \<open>N\<close>, \<^verbatim>\<open>rmse_last\<close> is the \<open>N\<close>-th observation,
  \<^verbatim>\<open>rmse_median\<close> is the standard median (the middle value of the sorted
  observations, the average of the two middle ones for even \<open>N\<close>), and the columns
  whose name starts with \<^verbatim>\<open>run_\<close> are exactly \<^verbatim>\<open>run_1\<close> to \<^verbatim>\<open>run_N\<close>, holding the
  observations in their order. Every scan that returns and whose base directory has
  this experiment among its \<^verbatim>\<open>spot_\<close> entries returns this row.
\<close>

theorem summary_row_statistics:
  assumes "parse_results_file file = Inr (Some rmse_values)"
  shows "\<exists>row. scan_loop [(dirname, file)] = Inr [row]
    \<and> (\<forall>base_dir results.
          scan_results base_dir = Inr results \<and> (dirname, file) \<in> set base_dir
          \<and> startswith dirname ''spot_'' \<longrightarrow> row \<in> set results)
    \<and> 1 \<le> length rmse_values
    \<and> map_of row ''num_runs'' = Some (CInt (length rmse_values))
    \<and> map_of row ''rmse_last'' = Some (CFloat (Fin (rmse_values ! (length rmse_values - 1))))
    \<and> map_of row ''rmse_median'' = Some (CFloat (Fin (standard_median rmse_values)))
    \<and> filter (\<lambda>(k, v). startswith k ''run_'') row =
        map (\<lambda>i. (''run_'' @ str_nat (Suc i), CFloat (Fin (rmse_values ! i)))) [0..<length rmse_values]"
proof -
  from assms have ne: "rmse_values \<noteq> []" by (rule parse_results_file_nonempty)
  then obtain v vs where xs: "rmse_values = v # vs" by (cases rmse_values) auto
  let ?base = "[(''name'', CStr dirname),
           (''num_runs'', CInt (length rmse_values)),
           (''rmse_mean'', CFloat (np_mean (map Fin rmse_values))),
           (''rmse_median'', CFloat (np_median rmse_values)),
           (''rmse_min'', CFloat (Fin (fold min vs v))),
           (''rmse_max'', CFloat (Fin (fold max vs v))),
           (''rmse_last'', CFloat (Fin (last rmse_values)))]"
  let ?runs = "map (\<lambda>i. (''run_'' @ str_nat (Suc i), CFloat (Fin (rmse_values ! i)))) [0..<length rmse_values]"
  have row: "make_row dirname (v # vs) = Inr (?base @ ?runs)"
    unfolding xs make_row_nonempty run_entries ..
  have 1: "scan_loop [(dirname, file)] = Inr [?base @ ?runs]"
    using assms row unfolding xs by (rule scan_loop_single)
  have 0: "\<forall>base_dir results.
          scan_results base_dir = Inr results \<and> (dirname, file) \<in> set base_dir
          \<and> startswith dirname ''spot_'' \<longrightarrow> ?base @ ?runs \<in> set results"
  proof (intro allI impI)
    fix base_dir results
    assume h: "scan_results base_dir = Inr results \<and> (dirname, file) \<in> set base_dir
          \<and> startswith dirname ''spot_''"
    note h1 = h [THEN conjunct1] and h2 = h [THEN conjunct2, THEN conjunct1]
      and h3 = h [THEN conjunct2, THEN conjunct2]
    from h1 h2 h3 1 show "?base @ ?runs \<in> set results" by (rule scan_results_member)
  qed
  have 2: "1 \<le> length rmse_values" using ne by (simp add: Suc_le_eq)
  have 3: "map_of (?base @ ?runs) ''num_runs'' = Some (CInt (length rmse_values))" by simp
  have 4: "map_of (?base @ ?runs) ''rmse_last'' = Some (CFloat (Fin (rmse_values ! (length rmse_values - 1))))"
    using ne by (simp add: last_conv_nth)
  have 5: "map_of (?base @ ?runs) ''rmse_median'' = Some (CFloat (Fin (standard_median rmse_values)))"
    using ne by (simp add: np_median_standard)
  have "filter (\<lambda>(k, v). startswith k ''run_'') ?base = []" by (simp add: startswith_def)
  then have 6: "filter (\<lambda>(k, v). startswith k ''run_'') (?base @ ?runs) = ?runs"
    using filter_run_entries [of "\<lambda>i. str_nat (Suc i)" "\<lambda>i. CFloat (Fin (rmse_values ! i))" "[0..<length rmse_values]"]
    by (simp only: filter_append append_Nil)
  show ?thesis
    by (rule exI [of _ "?base @ ?runs"]) (intro conjI; fact 0 1 2 3 4 5 6)
qed

lemma findall_two_runs: "findall ''rmse 0.5200\<newline>rmse 0.4800'' = [''0.5200'', ''0.4800'']"
  by (simp add: findall_def match_here_def is_space_def is_token_char_def is_digit_def eval_nat_numeral)

lemma py_float_two_runs: "py_float ''0.5200'' = Inr 0.52" "py_float ''0.4800'' = Inr 0.48"
  by (simp_all add: py_float_def is_digit_def dec_def digit_val_def)

lemma parse_two_runs:
  "parse_results_file (Some ''rmse 0.5200\<newline>rmse 0.4800'') = Inr (Some [0.52, 0.48])"
  by (simp add: parse_results_file_def findall_two_runs py_float_two_runs)

lemma scan_results_single:
  "startswith d ''spot_'' \<Longrightarrow> scan_results [(d, f)] = scan_loop [(d, f)]"
  by (simp add: scan_results_def del: scan_loop.simps)

theorem summary_row_statistics_witness:
  "parse_results_file (Some ''rmse 0.5200\<newline>rmse 0.4800'') = Inr (Some [0.52, 0.48])
   \<and> startswith ''spot_seq1_base'' ''spot_''
   \<and> (\<exists>row. scan_results [(''spot_seq1_base'', Some ''rmse 0.5200\<newline>rmse 0.4800'')] = Inr [row]
        \<and> map_of row ''num_runs'' = Some (CInt 2)
        \<and> map_of row ''rmse_last'' = Some (CFloat (Fin 0.48))
        \<and> map_of row ''rmse_median'' = Some (CFloat (Fin 0.5))
        \<and> filter (\<lambda>(k, v). startswith k ''run_'') row =
            [(''run_1'', CFloat (Fin 0.52)), (''run_2'', CFloat (Fin 0.48))])"
proof -
  note p = parse_two_runs
  have sw: "startswith ''spot_seq1_base'' ''spot_''" by (simp add: startswith_def)
  from summary_row_statistics [OF p, of "''spot_seq1_base''"]
  obtain row where r: "scan_loop [(''spot_seq1_base'', Some ''rmse 0.5200\<newline>rmse 0.4800'')] = Inr [row]"
    and n: "map_of row ''num_runs'' = Some (CInt (length [0.52, 0.48 :: real]))"
    and l: "map_of row ''rmse_last'' = Some (CFloat (Fin ([0.52, 0.48] ! (length [0.52, 0.48 :: real] - 1))))"
    and m: "map_of row ''rmse_median'' = Some (CFloat (Fin (standard_median [0.52, 0.48])))"
    and f: "filter (\<lambda>(k, v). startswith k ''run_'') row =
        map (\<lambda>i. (''run_'' @ str_nat (Suc i), CFloat (Fin ([0.52, 0.48] ! i)))) [0..<length [0.52, 0.48 :: real]]"
    by (elim exE conjE) (rule that; assumption)
  have sm: "standard_median [0.52, 0.48] = 0.5"
    by (simp add: standard_median_def)
  have up: "[0..<length [0.52, 0.48 :: real]] = [0, 1]"
    by (simp add: upt_rec)
  have r': "scan_results [(''spot_seq1_base'', Some ''rmse 0.5200\<newline>rmse 0.4800'')] = Inr [row]"
    using r unfolding scan_results_single [OF sw] .
  have n': "map_of row ''num_runs'' = Some (CInt 2)" using n by simp
  have l': "map_of row ''rmse_last'' = Some (CFloat (Fin 0.48))" using l by simp
  have m': "map_of row ''rmse_median'' = Some (CFloat (Fin 0.5))" using m sm by simp
  have f': "filter (\<lambda>(k, v). startswith k ''run_'') row =
            [(''run_1'', CFloat (Fin 0.52)), (''run_2'', CFloat (Fin 0.48))]"
    unfolding f up by (simp add: str_nat.simps)
  show ?thesis
    by (intro conjI exI [of _ row]; fact p sw r' n' l' m' f')
qed

section \<open>Properties of the Extractor as a whole\<close>

lemma py_float_error: "py_float r = Inl e \<Longrightarrow> e = ValueError"
  by (auto simp: py_float_def Let_def split: list.splits if_splits)

lemma floats_of_Inl_iff:
  "floats_of rs = Inl ValueError \<longleftrightarrow> (\<exists>r \<in> set rs. py_float r = Inl ValueError)"
proof (induction rs)
  case Nil
  show ?case by simp
next
  case (Cons r rs)
  show ?case
  proof (cases "py_float r")
    case (Inl e)
    then have "e = ValueError" by (rule py_float_error)
    with Inl show ?thesis by simp
  next
    case (Inr x)
    show ?thesis
    proof (cases "floats_of rs")
      case (Inl e)
      with Cons.IH Inr show ?thesis by (cases e) simp_all
    next
      case inr: (Inr xs)
      with Cons.IH Inr show ?thesis by simp
    qed
  qed
qed

lemma floats_of_error: "floats_of rs = Inl e \<Longrightarrow> e = ValueError"
proof (induction rs)
  case Nil
  then show ?case by simp
next
  case (Cons r rs)
  then show ?case
    by (auto split: sum.splits dest: py_float_error)
qed

lemma parse_results_file_Inl_iff:
  "parse_results_file (Some content) = Inl ValueError
   \<longleftrightarrow> (\<exists>tok \<in> set (findall content). py_float tok = Inl ValueError)"
proof (cases "floats_of (findall content)")
  case (Inl e)
  then have e: "e = ValueError" by (rule floats_of_error)
  with Inl floats_of_Inl_iff [of "findall content"] show ?thesis
    by (simp add: parse_results_file_def)
next
  case (Inr xs)
  with floats_of_Inl_iff [of "findall content"] show ?thesis
    by (simp add: parse_results_file_def)
qed

lemma parse_results_file_returns_iff:
  "(\<exists>r. parse_results_file (Some content) = Inr r)
   \<longleftrightarrow> (\<forall>tok \<in> set (findall content). \<exists>x. py_float tok = Inr x)"
proof -
  have "(\<exists>r. parse_results_file (Some content) = Inr r) \<longleftrightarrow> parse_results_file (Some content) \<noteq> Inl ValueError"
  proof (cases "floats_of (findall content)")
    case (Inl e)
    then have "e = ValueError" by (rule floats_of_error)
    with Inl show ?thesis by (simp add: parse_results_file_def)
  next
    case (Inr xs)
    then show ?thesis by (simp add: parse_results_file_def)
  qed
  also have "\<dots> \<longleftrightarrow> \<not> (\<exists>tok \<in> set (findall content). py_float tok = Inl ValueError)"
    by (simp only: parse_results_file_Inl_iff)
  also have "\<dots> \<longleftrightarrow> (\<forall>tok \<in> set (findall content). \<exists>x. py_float tok = Inr x)"
  proof -
    have "py_float tok \<noteq> Inl ValueError \<longleftrightarrow> (\<exists>x. py_float tok = Inr x)" for tok
    proof (cases "py_float tok")
      case (Inl e)
      then have "e = ValueError" by (rule py_float_error)
      with Inl show ?thesis by simp
    next
      case (Inr x)
      then show ?thesis by simp
    qed
    then show ?thesis by simp
  qed
  finally show ?thesis .
qed

lemma findall_bad1: "findall ''rmse 1.2.3'' = [''1.2.3'']"
  by (simp add: findall_def match_here_def is_space_def is_token_char_def is_digit_def eval_nat_numeral)

lemma findall_bad2: "findall ''rmse ...'' = [''...'']"
  by (simp add: findall_def match_here_def is_space_def is_token_char_def is_digit_def eval_nat_numeral)

lemma py_float_bad1: "py_float ''1.2.3'' = Inl ValueError"
  by (simp add: py_float_def is_digit_def)

lemma py_float_bad2: "py_float ''...'' = Inl ValueError"
  by (simp add: py_float_def is_digit_def)

lemma scan_results_bad:
  "scan_results [(''spot_seq1_base'', Some ''rmse 1.2.3'')] = Inl ValueError"
  by (simp add: scan_results_def startswith_def parse_results_file_def findall_bad1 py_float_bad1)

text \<open>
  Claim C9. Parsing a results file is not total. The contents \<^verbatim>\<open>rmse 1.2.3\<close> and
  \<^verbatim>\<open>rmse ...\<close> match the pattern, their captured tokens are not decimal numbers,
  and \<^verbatim>\<open>float\<close> raises \<^verbatim>\<open>ValueError\<close> inside \<^verbatim>\<open>parse_results_file\<close>; the scan
  of the directories raises with it instead of skipping the experiment. In general
  the function raises exactly when some captured token does not convert, and returns
  exactly when every captured token converts.
\<close>

theorem parse_results_file_not_total:
  "findall ''rmse 1.2.3'' = [''1.2.3''] \<and> py_float ''1.2.3'' = Inl ValueError
   \<and> parse_results_file (Some ''rmse 1.2.3'') = Inl ValueError
   \<and> findall ''rmse ...'' = [''...''] \<and> py_float ''...'' = Inl ValueError
   \<and> parse_results_file (Some ''rmse ...'') = Inl ValueError
   \<and> scan_results [(''spot_seq1_base'', Some ''rmse 1.2.3'')] = Inl ValueError
   \<and> (parse_results_file (Some content) = Inl ValueError
        \<longleftrightarrow> (\<exists>tok \<in> set (findall content). py_float tok = Inl ValueError))
   \<and> ((\<exists>r. parse_results_file (Some content) = Inr r)
        \<longleftrightarrow> (\<forall>tok \<in> set (findall content). \<exists>x. py_float tok = Inr x))"
proof (intro conjI)
  show "findall ''rmse 1.2.3'' = [''1.2.3'']" by (rule findall_bad1)
  show "py_float ''1.2.3'' = Inl ValueError" by (rule py_float_bad1)
  show "parse_results_file (Some ''rmse 1.2.3'') = Inl ValueError"
    by (simp add: parse_results_file_def findall_bad1 py_float_bad1)
  show "findall ''rmse ...'' = [''...'']" by (rule findall_bad2)
  show "py_float ''...'' = Inl ValueError" by (rule py_float_bad2)
  show "parse_results_file (Some ''rmse ...'') = Inl ValueError"
    by (simp add: parse_results_file_def findall_bad2 py_float_bad2)
  show "scan_results [(''spot_seq1_base'', Some ''rmse 1.2.3'')] = Inl ValueError"
    by (rule scan_results_bad)
  show "parse_results_file (Some content) = Inl ValueError
        \<longleftrightarrow> (\<exists>tok \<in> set (findall content). py_float tok = Inl ValueError)"
    by (rule parse_results_file_Inl_iff)
  show "(\<exists>r. parse_results_file (Some content) = Inr r)
        \<longleftrightarrow> (\<forall>tok \<in> set (findall content). \<exists>x. py_float tok = Inr x)"
    by (rule parse_results_file_returns_iff)
qed

lemma findall_good: "findall ''final rmse 2 m'' = [''2'']"
  by (simp add: findall_def match_here_def is_space_def is_token_char_def is_digit_def eval_nat_numeral)

lemma py_float_good: "py_float ''2'' = Inr 2"
  by (simp add: py_float_def is_digit_def dec_def digit_val_def)

theorem parse_results_file_not_total_witness:
  "findall ''final rmse 2 m'' = [''2''] \<and> py_float ''2'' = Inr 2
   \<and> (\<exists>r. parse_results_file (Some ''final rmse 2 m'') = Inr r)
   \<and> findall ''rmse 1.2.3'' = [''1.2.3''] \<and> py_float ''1.2.3'' = Inl ValueError
   \<and> parse_results_file (Some ''rmse 1.2.3'') = Inl ValueError"
proof -
  have a: "\<forall>tok \<in> set (findall ''final rmse 2 m''). \<exists>x. py_float tok = Inr x"
    by (simp add: findall_good py_float_good)
  note t1 = parse_results_file_not_total [of "''final rmse 2 m''"]
  note t2 = parse_results_file_not_total [of "''rmse 1.2.3''"]
  from t1 have "(\<exists>r. parse_results_file (Some ''final rmse 2 m'') = Inr r)
        \<longleftrightarrow> (\<forall>tok \<in> set (findall ''final rmse 2 m''). \<exists>x. py_float tok = Inr x)"
    by (elim conjE)
  with a have c: "\<exists>r. parse_results_file (Some ''final rmse 2 m'') = Inr r" by (rule iffD2 [rotated])
  from t2 have d: "parse_results_file (Some ''rmse 1.2.3'') = Inl ValueError"
    by (elim conjE)
  from findall_good py_float_good c findall_bad1 py_float_bad1 d show ?thesis
    by (intro conjI) assumption+
qed

lemma extractor_empty: "extractor_main [] = Inl KeyError"
  by (simp add: extractor_main_def scan_results_def DataFrame_def select_columns_def base_cols_def)

lemma extractor_no_data:
  "extractor_main [(''spot_seq1_base'', None), (''spot_seq1_daac_rgd_inv'', Some ''no data'')] = Inl KeyError"
  by (simp add: extractor_main_def scan_results_def startswith_def parse_results_file_def findall_def
      match_here_def DataFrame_def select_columns_def base_cols_def)

lemma reporter_empty: "reporter_main [] = Inl ValueError"
  by (simp add: reporter_main_def parse_all_def)

lemma extractor_main_no_rows:
  "scan_results base_dir = Inr [] \<Longrightarrow> extractor_main base_dir = Inl KeyError"
  by (simp add: extractor_main_def DataFrame_def select_columns_def base_cols_def)

text \<open>
  Claim C1, evaluated on the code. With a missing or empty base directory, or with
  directories none of which yields an observation, \<^verbatim>\<open>scan_results\<close> returns no row;
  the frame made from no row has no column, and selecting the summary columns from it
  raises \<^verbatim>\<open>KeyError\<close> before any CSV is written. The Reporter on a CSV without
  rows raises \<^verbatim>\<open>ValueError\<close> where the names are parsed.
\<close>

theorem empty_results_raise:
  "scan_results [] = Inr []
   \<and> df_columns (DataFrame []) = []
   \<and> select_columns (DataFrame []) base_cols = Inl KeyError
   \<and> extractor_main [] = Inl KeyError
   \<and> extractor_main [(''spot_seq1_base'', None), (''spot_seq1_daac_rgd_inv'', Some ''no data'')]
       = Inl KeyError
   \<and> reporter_main [] = Inl ValueError"
proof (intro conjI)
  show "scan_results [] = Inr []" by (simp add: scan_results_def)
  show "df_columns (DataFrame []) = []" by (simp add: DataFrame_def)
  show "select_columns (DataFrame []) base_cols = Inl KeyError"
    by (simp add: DataFrame_def select_columns_def base_cols_def)
  show "extractor_main [] = Inl KeyError" by (rule extractor_empty)
  show "extractor_main [(''spot_seq1_base'', None), (''spot_seq1_daac_rgd_inv'', Some ''no data'')]
       = Inl KeyError" by (rule extractor_no_data)
  show "reporter_main [] = Inl ValueError" by (rule reporter_empty)
qed

end
